theory Spec2Isabelle
  imports Complex_Main
begin

section \<open>Data model of \<open>core/clicker/blum.py\<close>\<close>

text \<open>
  The screenshot handed to the detectors is an image object of which the code uses two
  things only: \<open>screen.size\<close>, a pair \<open>(width, height)\<close>, and \<open>screen.getpixel((x, y))\<close>,
  an RGB triple. A read outside \<open>[0, width) \<times> [0, height)\<close> raises \<open>IndexError\<close>. The code
  only ever builds non-negative coordinates (\<open>x - 1\<close> is read under the guard \<open>x > 0\<close>), so
  coordinates inside the image are natural numbers; colour channels are Python ints.
  The other exception of the detectors is \<open>cv2.error\<close>, raised by OpenCV.
\<close>

datatype error = IndexError | CvError

type_synonym rgb = "nat \<times> nat \<times> nat"

type_synonym rect = "int \<times> int \<times> int \<times> int"

record screen =
  size_wh :: "nat \<times> nat"
  pixel :: "nat \<times> nat \<Rightarrow> rgb"

definition getpixel :: "screen \<Rightarrow> nat \<times> nat \<Rightarrow> error + rgb" where
  "getpixel scr xy =
     (case size_wh scr of (width, height) \<Rightarrow>
        if fst xy < width \<and> snd xy < height then Inr (pixel scr xy) else Inl IndexError)"

text \<open>\<open>rect[0]\<close> and \<open>rect[1]\<close>: the absolute origin of the window.\<close>

definition rect0 :: "rect \<Rightarrow> int" where
  "rect0 r = fst r"

definition rect1 :: "rect \<Rightarrow> int" where
  "rect1 r = fst (snd r)"

text \<open>
  What a run of the program does to the outside world is recorded as a list of events, in
  the order the calls are made: key polls, log lines, the debounce sleep (in
  milliseconds), the window, rectangle and capture calls, the detector calls of
  \<open>run\<close>, and the pointer calls \<open>mouse.move(x, y, absolute=True)\<close> and
  \<open>mouse.click(button=mouse.LEFT)\<close>.
\<close>

datatype key = KeyS | KeyP

datatype level = Info | Error

datatype detector = Green | Freeze | Dog | Button

datatype event =
    IsPressed key
  | Log level string "string list"
  | Sleep nat
  | GetWindow
  | GetRect
  | Capture rect
  | Call detector
  | MouseMove int int
  | MouseClick

text \<open>
  A detector returns its events together with either the exception that ended it or
  the boolean it returns.
\<close>

type_synonym 'a io = "event list \<times> (error + 'a)"

section \<open>The grid detectors\<close>

text \<open>\<open>range(0, stop, step)\<close> for a positive step.\<close>

definition range_step :: "nat \<Rightarrow> nat \<Rightarrow> nat list" where
  "range_step stop step = map (\<lambda>i. i * step) [0..<(stop + step - 1) div step]"

text \<open>
  \<open>itertools.product(xs, ys)\<close> yields the pairs with the rightmost component advancing
  fastest; \<^const>\<open>List.product\<close> lists them in that same order.
\<close>

definition grid :: "screen \<Rightarrow> (nat \<times> nat) list" where
  "grid scr = (case size_wh scr of (width, height) \<Rightarrow>
     List.product (range_step width 20) (range_step height 20))"

definition avoid_color :: rgb where
  "avoid_color = (196, 247, 94)"

definition greenish_range :: "rgb \<Rightarrow> bool" where
  "greenish_range c = (case c of (r, g, b) \<Rightarrow>
     b < 125 \<and> (102 \<le> r \<and> r < 220) \<and> (200 \<le> g \<and> g < 255))"

fun green_loop :: "screen \<Rightarrow> rect \<Rightarrow> (nat \<times> nat) list \<Rightarrow> bool io" where
  "green_loop scr r [] = ([], Inr False)"
| "green_loop scr r ((x, y) # rest) =
     (case getpixel scr (x, y) of
        Inl e \<Rightarrow> ([], Inl e)
      | Inr c \<Rightarrow>
          if c = avoid_color then green_loop scr r rest
          else if greenish_range c then
            ([MouseMove (rect0 r + int x) (rect1 r + int y), MouseClick], Inr True)
          else green_loop scr r rest)"

definition collect_green :: "screen \<Rightarrow> rect \<Rightarrow> bool io" where
  "collect_green scr r = green_loop scr r (grid scr)"

definition blueish_range :: "rgb \<Rightarrow> bool" where
  "blueish_range c = (case c of (r, g, b) \<Rightarrow>
     (215 < b \<and> b < 255) \<and> (100 \<le> r \<and> r < 166) \<and> (220 \<le> g \<and> g < 254))"

fun freeze_loop :: "screen \<Rightarrow> rect \<Rightarrow> (nat \<times> nat) list \<Rightarrow> bool io" where
  "freeze_loop scr r [] = ([], Inr False)"
| "freeze_loop scr r ((x, y) # rest) =
     (case getpixel scr (x, y) of
        Inl e \<Rightarrow> ([], Inl e)
      | Inr c \<Rightarrow>
          if blueish_range c then
            ([MouseMove (rect0 r + int x) (rect1 r + int y), MouseClick], Inr True)
          else freeze_loop scr r rest)"

definition collect_freeze :: "screen \<Rightarrow> rect \<Rightarrow> bool io" where
  "collect_freeze scr r = freeze_loop scr r (grid scr)"

section \<open>The face detector\<close>

text \<open>
  \<open>collect_dog\<close> hands the screenshot to OpenCV: \<open>cv2.cvtColor\<close> twice, \<open>cv2.inRange\<close>
  and \<open>cv2.findContours\<close>, and then reads each contour through \<open>cv2.contourArea\<close> and
  \<open>cv2.boundingRect\<close>. OpenCV is a library outside the repository. What the model
  takes from it:
  \<^item> \<open>cv2.cvtColor\<close>, the first call, raises \<open>cv2.error\<close> on an image without pixels
    (width or height 0);
  \<^item> for any other screenshot the pipeline up to \<open>findContours\<close> answers a list of
    contours, each the list of its vertices; which contours it finds in a screenshot is
    a parameter of the model;
  \<^item> \<open>cv2.contourArea\<close> is half the absolute value of the sum of
    \<open>prev.x * cur.y - prev.y * cur.x\<close> over the vertices, \<open>prev\<close> starting at the last
    vertex: the area of the polygon through the vertices (Green's formula), not the
    number of pixels of the region;
  \<^item> \<open>cv2.boundingRect\<close> is \<open>(min x, min y, max x - min x + 1, max y - min y + 1)\<close>
    over the vertices.
\<close>

type_synonym contour = "(int \<times> int) list"

definition contourArea :: "contour \<Rightarrow> real" where
  "contourArea c =
     (if c = [] then 0
      else \<bar>real_of_int
             (sum_list (map (\<lambda>(prev, cur). fst prev * snd cur - snd prev * fst cur)
                            (zip (last c # butlast c) c)))\<bar> / 2)"

definition least :: "int list \<Rightarrow> int" where
  "least xs = foldr min xs (hd xs)"

definition greatest :: "int list \<Rightarrow> int" where
  "greatest xs = foldr max xs (hd xs)"

definition boundingRect :: "contour \<Rightarrow> int \<times> int \<times> int \<times> int" where
  "boundingRect c =
     (if c = [] then (0, 0, 0, 0)
      else (let xs = map fst c; ys = map snd c; x = least xs; y = least ys
            in (x, y, greatest xs - x + 1, greatest ys - y + 1)))"

fun dog_loop :: "rect \<Rightarrow> contour list \<Rightarrow> bool io" where
  "dog_loop r [] = ([], Inr False)"
| "dog_loop r (c # rest) =
     (let area = contourArea c in
      if 500 < area \<and> area < 3000 then
        (case boundingRect c of (x, y, w, h) \<Rightarrow>
           ([MouseMove (rect0 r + x + w div 2) (rect1 r + y + h div 2), MouseClick], Inr True))
      else dog_loop r rest)"

definition collect_dog :: "(screen \<Rightarrow> contour list) \<Rightarrow> screen \<Rightarrow> rect \<Rightarrow> bool io" where
  "collect_dog findContours scr r =
     (case size_wh scr of (width, height) \<Rightarrow>
        if width = 0 \<or> height = 0 then ([], Inl CvError)
        else dog_loop r (findContours scr))"

section \<open>The button detector\<close>

definition button_color :: rgb where
  "button_color = (255, 255, 255)"

definition text_color :: rgb where
  "text_color = (0, 0, 0)"

text \<open>
  \<open>int(height * 0.75)\<close>: the product is exact in double precision for every height below
  \<open>2 ^ 51\<close>, and \<open>int\<close> truncates it, so the start row is \<open>3 * height div 4\<close>.
\<close>

definition search_area_start_y :: "nat \<Rightarrow> nat" where
  "search_area_start_y height = 3 * height div 4"

text \<open>
  \<open>all(screen.getpixel((x, y + offset)) == button_color for offset in range(1, 10))\<close>:
  the generator is consumed in order and \<open>all\<close> stops at the first pixel that differs;
  a read below the image raises.
\<close>

fun all_below :: "screen \<Rightarrow> nat \<Rightarrow> nat \<Rightarrow> nat list \<Rightarrow> error + bool" where
  "all_below scr x y [] = Inr True"
| "all_below scr x y (offset # rest) =
     (case getpixel scr (x, y + offset) of
        Inl e \<Rightarrow> Inl e
      | Inr c \<Rightarrow> if c = button_color then all_below scr x y rest else Inr False)"

text \<open>
  \<open>(x < width - 1 and getpixel((x + 1, y)) == text_color) or
   (x > 0 and getpixel((x - 1, y)) == text_color)\<close>, with both short circuits.
\<close>

definition text_beside :: "screen \<Rightarrow> nat \<Rightarrow> nat \<Rightarrow> error + bool" where
  "text_beside scr x y =
     (case size_wh scr of (width, height) \<Rightarrow>
        (case (if int x < int width - 1
               then (case getpixel scr (x + 1, y) of
                       Inl e \<Rightarrow> Inl e | Inr c \<Rightarrow> Inr (c = text_color))
               else Inr False) of
           Inl e \<Rightarrow> Inl e
         | Inr True \<Rightarrow> Inr True
         | Inr False \<Rightarrow>
             if x > 0
             then (case getpixel scr (x - 1, y) of
                     Inl e \<Rightarrow> Inl e | Inr c \<Rightarrow> Inr (c = text_color))
             else Inr False))"

text \<open>The inner loop \<open>for x in range(width)\<close> of one row, up to its \<open>break\<close>.\<close>

fun button_row :: "screen \<Rightarrow> rect \<Rightarrow> nat \<Rightarrow> nat list \<Rightarrow> bool io" where
  "button_row scr r y [] = ([], Inr False)"
| "button_row scr r y (x # rest) =
     (case getpixel scr (x, y) of
        Inl e \<Rightarrow> ([], Inl e)
      | Inr c \<Rightarrow>
          if c = button_color then
            (case all_below scr x y [1..<10] of
               Inl e \<Rightarrow> ([], Inl e)
             | Inr False \<Rightarrow> button_row scr r y rest
             | Inr True \<Rightarrow>
                 (case text_beside scr x y of
                    Inl e \<Rightarrow> ([], Inl e)
                  | Inr False \<Rightarrow> button_row scr r y rest
                  | Inr True \<Rightarrow>
                      ([MouseMove (rect0 r + int x + 10) (rect1 r + int y + 5), MouseClick],
                       Inr True)))
          else button_row scr r y rest)"

text \<open>The outer loop \<open>for y in range(search_area_start_y, search_area_end_y)\<close>.\<close>

fun button_rows :: "screen \<Rightarrow> rect \<Rightarrow> nat list \<Rightarrow> bool io" where
  "button_rows scr r [] = ([], Inr False)"
| "button_rows scr r (y # rest) =
     (case button_row scr r y [0..<fst (size_wh scr)] of
        (evs, Inl e) \<Rightarrow> (evs, Inl e)
      | (evs, Inr True) \<Rightarrow> (evs, Inr True)
      | (evs, Inr False) \<Rightarrow> button_rows scr r rest)"

definition collect_button :: "screen \<Rightarrow> rect \<Rightarrow> bool io" where
  "collect_button scr r =
     (case size_wh scr of (width, height) \<Rightarrow>
        button_rows scr r [search_area_start_y height..<height])"

section \<open>The pause switch\<close>

text \<open>
  The object state the loop uses is \<open>self.paused\<close>. \<open>keyboard.is_pressed\<close> is the
  key-state source: the function \<open>pressed\<close> is what it answers during one call.
  \<open>await asyncio.sleep(0.2)\<close> suspends the only task of the program for 200
  milliseconds before \<open>handle_input\<close> returns.
\<close>

record clicker =
  paused :: bool

definition handle_input :: "(key \<Rightarrow> bool) \<Rightarrow> clicker \<Rightarrow> event list \<times> bool \<times> clicker" where
  "handle_input pressed self =
     (if pressed KeyS \<and> paused self then
        ([IsPressed KeyS, Log Info ''PRESS_P_TO_PAUSE'' [], Sleep 200],
         False, self\<lparr>paused := False\<rparr>)
      else if pressed KeyP then
        (let self' = self\<lparr>paused := \<not> paused self\<rparr> in
         ([IsPressed KeyS, IsPressed KeyP,
           Log Info (if paused self' then ''PROGRAM_PAUSED'' else ''PROGRAM_RESUMED'') [],
           Sleep 200],
          paused self', self'))
      else ([IsPressed KeyS, IsPressed KeyP], paused self, self))"

section \<open>The run loop\<close>

text \<open>
  What the outside world supplies to one iteration of \<open>while True\<close>: the key state,
  the window rectangle, the captured screenshot and the value of the configuration
  flag \<open>COLLECT_DOGS\<close>.
\<close>

record tick_env =
  keys :: "key \<Rightarrow> bool"
  window_rect :: rect
  screenshot :: screen
  collect_dogs :: bool

text \<open>A detector call of \<open>run\<close>: the call is recorded, then the detector's own events.\<close>

definition call :: "detector \<Rightarrow> bool io \<Rightarrow> bool io" where
  "call d m = (Call d # fst m, snd m)"

text \<open>Sequencing: an exception ends the sequence, the events so far are kept.\<close>

definition bind_io :: "'a io \<Rightarrow> ('a \<Rightarrow> 'b io) \<Rightarrow> 'b io" where
  "bind_io m f =
     (case m of
        (evs, Inl e) \<Rightarrow> (evs, Inl e)
      | (evs, Inr a) \<Rightarrow> (case f a of (evs', res) \<Rightarrow> (evs @ evs', res)))"

text \<open>
  The body of the loop once \<open>handle_input\<close> has answered "not paused": lines 183 to
  194 of the source.
\<close>

definition active_tick :: "(screen \<Rightarrow> contour list) \<Rightarrow> tick_env \<Rightarrow> unit io" where
  "active_tick findContours env =
     (let r = window_rect env; scr = screenshot env in
      bind_io ([GetRect, Capture r], Inr ()) (\<lambda>_.
      bind_io (call Green (collect_green scr r)) (\<lambda>is_green.
      bind_io (call Freeze (collect_freeze scr r)) (\<lambda>_.
      bind_io (if collect_dogs env then call Dog (collect_dog findContours scr r)
               else ([], Inr False)) (\<lambda>_.
      if \<not> is_green then bind_io (call Button (collect_button scr r)) (\<lambda>_. ([], Inr ()))
      else ([], Inr ()))))))"

text \<open>
  \<open>while True\<close> never ends by itself. The loop is run over the iterations the
  outside world has supplied so far: it either is still going when they are used up
  (\<open>Inr\<close>, with the object state reached) or has been ended by an exception.
\<close>

fun run_loop :: "(screen \<Rightarrow> contour list) \<Rightarrow> tick_env list \<Rightarrow> clicker \<Rightarrow> clicker io" where
  "run_loop findContours [] self = ([], Inr self)"
| "run_loop findContours (env # rest) self =
     (case handle_input (keys env) self of
        (evs, is_paused, self') \<Rightarrow>
          if is_paused then
            bind_io (evs, Inr ()) (\<lambda>_. run_loop findContours rest self')
          else
            bind_io (evs, Inr ()) (\<lambda>_.
            bind_io (active_tick findContours env) (\<lambda>_.
            run_loop findContours rest self')))"

datatype outcome = Returned | Looping

definition error_text :: "error \<Rightarrow> string" where
  "error_text e =
     (case e of IndexError \<Rightarrow> ''image index out of range'' | CvError \<Rightarrow> ''cv2.error'')"

text \<open>
  \<open>run\<close>: \<open>self.utils.get_window()\<close> answers a window (its title is all the code reads)
  or nothing. Any exception of the loop is caught by the \<open>except\<close> clause, logged, and
  \<open>run\<close> returns.
\<close>

definition run ::
  "(screen \<Rightarrow> contour list) \<Rightarrow> string option \<Rightarrow> tick_env list \<Rightarrow> clicker \<Rightarrow> event list \<times> outcome"
where
  "run findContours window envs self =
     (case window of
        None \<Rightarrow> ([GetWindow, Log Error ''WINDOW_NOT_FOUND'' []], Returned)
      | Some title \<Rightarrow>
          (case run_loop findContours envs self of
             (evs, res) \<Rightarrow>
               ([GetWindow, Log Info ''CLICKER_INITIALIZED'' [], Log Info ''p'' [title],
                 Log Info ''PRESS_S_TO_START'' []] @ evs @
                (case res of Inl e \<Rightarrow> [Log Error ''WINDOW_CLOSED'' [error_text e]] | Inr _ \<Rightarrow> []),
                (case res of Inl e \<Rightarrow> Returned | Inr _ \<Rightarrow> Looping))))"

section \<open>Predicates and inputs used in the statements\<close>

text \<open>
  The condition under which the body of the loop of \<open>collect_green\<close> clicks: the pixel
  is not skipped by \<open>continue\<close> and is in the green-ish range.
\<close>

definition green_hit :: "rgb \<Rightarrow> bool" where
  "green_hit c = (c \<noteq> avoid_color \<and> greenish_range c)"

text \<open>The order in which \<open>product\<close> yields two distinct pairs.\<close>

definition lex_before :: "nat \<times> nat \<Rightarrow> nat \<times> nat \<Rightarrow> bool" where
  "lex_before p q = (fst p < fst q \<or> (fst p = fst q \<and> snd p < snd q))"

text \<open>
  A 40 by 40 screenshot, black but for two green-ish pixels on the grid, at \<open>(20, 0)\<close>
  and at \<open>(0, 20)\<close>.
\<close>

definition scan_order_screen :: screen where
  "scan_order_screen =
     \<lparr>size_wh = (40, 40),
      pixel = (\<lambda>p. if p = (20, 0) \<or> p = (0, 20) then (150, 230, 50) else (0, 0, 0))\<rparr>"

text \<open>
  The classification of a sampled pixel in the words of the specification: blue below
  125, red in \<open>[102, 220)\<close>, green in \<open>[200, 255)\<close>, and not the excluded colour.
\<close>

definition green_match_spec :: "rgb \<Rightarrow> bool" where
  "green_match_spec c = (case c of (r, g, b) \<Rightarrow>
     b < 125 \<and> 102 \<le> r \<and> r < 220 \<and> 200 \<le> g \<and> g < 255 \<and> (r, g, b) \<noteq> (196, 247, 94))"

text \<open>A 40 by 40 screenshot of the excluded colour everywhere.\<close>

definition avoid_screen :: screen where
  "avoid_screen = \<lparr>size_wh = (40, 40), pixel = (\<lambda>p. (196, 247, 94))\<rparr>"

text \<open>
  A 20 by 40 screenshot with a green-ish pixel at \<open>(0, 0)\<close> and a blue-ish pixel at
  \<open>(0, 20)\<close>, and the loop input that carries it.
\<close>

definition two_markers_screen :: screen where
  "two_markers_screen =
     \<lparr>size_wh = (20, 40),
      pixel = (\<lambda>p. if p = (0, 0) then (150, 230, 50)
                   else if p = (0, 20) then (120, 230, 230) else (0, 0, 0))\<rparr>"

definition two_markers_env :: tick_env where
  "two_markers_env =
     \<lparr>keys = (\<lambda>k. False), window_rect = (100, 50, 20, 40),
      screenshot = two_markers_screen, collect_dogs = False\<rparr>"

text \<open>A contour finder that finds nothing.\<close>

definition no_contours :: "screen \<Rightarrow> contour list" where
  "no_contours scr = []"

text \<open>
  What the body of the loops of \<open>collect_button\<close> does at a pixel \<open>(x, y)\<close> of the image,
  read off the three nested conditions: it clicks when the pixel is white, the nine
  pixels below it are inside the image and white, and the right neighbour (if there is
  one) or else the left neighbour (if there is one) is black; it raises when the pixel
  is white and the white run below it reaches the last row before nine pixels are read.
\<close>

definition button_hit :: "screen \<Rightarrow> nat \<Rightarrow> nat \<Rightarrow> bool" where
  "button_hit scr x y = (case size_wh scr of (width, height) \<Rightarrow>
     pixel scr (x, y) = button_color \<and> y + 9 < height \<and>
     (\<forall>offset \<in> {1..<10}. pixel scr (x, y + offset) = button_color) \<and>
     ((x + 1 < width \<and> pixel scr (x + 1, y) = text_color) \<or>
      (0 < x \<and> pixel scr (x - 1, y) = text_color)))"

definition button_overrun :: "screen \<Rightarrow> nat \<Rightarrow> nat \<Rightarrow> bool" where
  "button_overrun scr x y = (case size_wh scr of (width, height) \<Rightarrow>
     pixel scr (x, y) = button_color \<and> height \<le> y + 9 \<and>
     (\<forall>offset \<in> {1..<10}. y + offset < height \<longrightarrow> pixel scr (x, y + offset) = button_color))"

definition button_click :: "rect \<Rightarrow> nat \<Rightarrow> nat \<Rightarrow> bool io" where
  "button_click r x y =
     ([MouseMove (rect0 r + int x + 10) (rect1 r + int y + 5), MouseClick], Inr True)"

text \<open>The pixels at which the scan of \<open>collect_button\<close> ends, as pairs \<open>(y, x)\<close>.\<close>

definition button_stop :: "screen \<Rightarrow> nat \<times> nat \<Rightarrow> bool" where
  "button_stop scr p = (button_hit scr (snd p) (fst p) \<or> button_overrun scr (snd p) (fst p))"

definition button_end :: "screen \<Rightarrow> rect \<Rightarrow> nat \<times> nat \<Rightarrow> bool io" where
  "button_end scr r p =
     (if button_hit scr (snd p) (fst p) then button_click r (snd p) (fst p)
      else ([], Inl IndexError))"

text \<open>
  The trigger condition of the button detector in the words of the specification: the
  pixel and the nine pixels below it are pure white, and the horizontal neighbour, the
  right one unless \<open>x\<close> is the last column and then the left one, is pure black.
\<close>

definition button_trigger_spec :: "screen \<Rightarrow> nat \<Rightarrow> nat \<Rightarrow> bool" where
  "button_trigger_spec scr x y = (case size_wh scr of (width, height) \<Rightarrow>
     pixel scr (x, y) = (255, 255, 255) \<and>
     (\<forall>offset \<in> {1..<10}. pixel scr (x, y + offset) = (255, 255, 255)) \<and>
     (if x + 1 < width then pixel scr (x + 1, y) = (0, 0, 0)
      else 0 < x \<and> pixel scr (x - 1, y) = (0, 0, 0)))"

text \<open>
  A 3 by 40 grey screenshot whose middle column is white in the rows 30 to 39, with a
  black pixel to the left of \<open>(1, 30)\<close>; the same with only nine white rows, 30 to 38,
  and the black pixel on the right; and the same with ten white rows and no black pixel.
\<close>

definition left_text_screen :: screen where
  "left_text_screen =
     \<lparr>size_wh = (3, 40),
      pixel = (\<lambda>p. if fst p = 1 \<and> 30 \<le> snd p then (255, 255, 255)
                   else if p = (0, 30) then (0, 0, 0) else (128, 128, 128))\<rparr>"

definition nine_run_screen :: screen where
  "nine_run_screen =
     \<lparr>size_wh = (3, 40),
      pixel = (\<lambda>p. if fst p = 1 \<and> 30 \<le> snd p \<and> snd p \<le> 38 then (255, 255, 255)
                   else if p = (2, 30) then (0, 0, 0) else (128, 128, 128))\<rparr>"

definition white_column_screen :: screen where
  "white_column_screen =
     \<lparr>size_wh = (3, 40),
      pixel = (\<lambda>p. if fst p = 1 \<and> 30 \<le> snd p then (255, 255, 255) else (128, 128, 128))\<rparr>"

text \<open>
  A pointer move lands inside the captured image when it is the window origin plus a
  point of \<open>[0, width) \<times> [0, height)\<close>; other events are not constrained.
\<close>

definition inside_image :: "screen \<Rightarrow> rect \<Rightarrow> event \<Rightarrow> bool" where
  "inside_image scr r ev =
     (case ev of
        MouseMove ax ay \<Rightarrow>
          (case size_wh scr of (width, height) \<Rightarrow>
             rect0 r \<le> ax \<and> ax < rect0 r + int width \<and>
             rect1 r \<le> ay \<and> ay < rect1 r + int height)
      | _ \<Rightarrow> True)"

text \<open>A contour has vertices, and they are pixels of the image.\<close>

definition contour_inside :: "screen \<Rightarrow> contour \<Rightarrow> bool" where
  "contour_inside scr c =
     (case size_wh scr of (width, height) \<Rightarrow>
        c \<noteq> [] \<and>
        list_all (\<lambda>p. 0 \<le> fst p \<and> fst p < int width \<and> 0 \<le> snd p \<and> snd p < int height) c)"

text \<open>
  Two 400 by 300 black screenshots, one with a green-ish and one with a blue-ish pixel
  at \<open>(20, 40)\<close>, and a contour finder that answers one square contour of area 1600
  whose bounding box has its centre at \<open>(20, 40)\<close>.
\<close>

definition example_screen :: screen where
  "example_screen =
     \<lparr>size_wh = (400, 300),
      pixel = (\<lambda>p. if p = (20, 40) then (150, 230, 50) else (0, 0, 0))\<rparr>"

definition example_freeze_screen :: screen where
  "example_freeze_screen =
     \<lparr>size_wh = (400, 300),
      pixel = (\<lambda>p. if p = (20, 40) then (120, 230, 230) else (0, 0, 0))\<rparr>"

definition one_face :: "screen \<Rightarrow> contour list" where
  "one_face scr = [[(0, 20), (0, 60), (40, 60), (40, 20)]]"

text \<open>
  The number of pure white pixels of a screenshot. Pure white has saturation 0 and
  value 255, inside the range given to \<open>inRange\<close>; black has value 0, outside it.
\<close>

definition white_area :: "screen \<Rightarrow> nat" where
  "white_area scr =
     (case size_wh scr of (width, height) \<Rightarrow>
        length (filter (\<lambda>p. pixel scr p = (255, 255, 255))
                  (List.product [0..<width] [0..<height])))"

text \<open>
  A 25 by 25 black screenshot with a filled white square of 23 by 23 pixels, from
  \<open>(1, 1)\<close> to \<open>(23, 23)\<close>, and what \<open>findContours\<close> with \<open>RETR_EXTERNAL\<close> and
  \<open>CHAIN_APPROX_SIMPLE\<close> answers for it: one contour, the four corner pixels of the
  square. The same for a 57 by 57 screenshot with a white square of 55 by 55 pixels.
\<close>

definition white_square_screen :: screen where
  "white_square_screen =
     \<lparr>size_wh = (25, 25),
      pixel = (\<lambda>p. if 1 \<le> fst p \<and> fst p \<le> 23 \<and> 1 \<le> snd p \<and> snd p \<le> 23
                   then (255, 255, 255) else (0, 0, 0))\<rparr>"

definition white_square_contours :: "screen \<Rightarrow> contour list" where
  "white_square_contours scr = [[(1, 1), (1, 23), (23, 23), (23, 1)]]"

definition large_square_screen :: screen where
  "large_square_screen =
     \<lparr>size_wh = (57, 57),
      pixel = (\<lambda>p. if 1 \<le> fst p \<and> fst p \<le> 55 \<and> 1 \<le> snd p \<and> snd p \<le> 55
                   then (255, 255, 255) else (0, 0, 0))\<rparr>"

definition large_square_contours :: "screen \<Rightarrow> contour list" where
  "large_square_contours scr = [[(1, 1), (1, 55), (55, 55), (55, 1)]]"





section \<open>The grid and the green-marker loop\<close>

lemma set_range_step_20: "set (range_step n 20) = {x. x < n \<and> 20 dvd x}"
proof -
  have k: "\<And>i. (i < (n + 20 - 1) div 20) = (i * 20 < n)" by arith
  show ?thesis
  proof (rule set_eqI)
    fix x
    show "(x \<in> set (range_step n 20)) = (x \<in> {x. x < n \<and> 20 dvd x})"
    proof
      assume "x \<in> set (range_step n 20)"
      then obtain i where "i < (n + 20 - 1) div 20" "x = i * 20"
        by (auto simp: range_step_def)
      then show "x \<in> {x. x < n \<and> 20 dvd x}" using k by simp
    next
      assume "x \<in> {x. x < n \<and> 20 dvd x}"
      then obtain i where "x = i * 20" "i * 20 < n" by (auto simp: dvd_def mult.commute)
      then have "i \<in> set [0..<(n + 20 - 1) div 20]" "x = i * 20" using k by simp_all
      then show "x \<in> set (range_step n 20)" unfolding range_step_def by (simp add: image_iff)
    qed
  qed
qed

lemma sorted_range_step: "sorted_wrt (<) (range_step n 20)"
  by (simp add: range_step_def sorted_wrt_map sorted_wrt_upt)

lemma set_grid:
  "size_wh scr = (w, h) \<Longrightarrow> set (grid scr) = {(x, y). x < w \<and> 20 dvd x \<and> y < h \<and> 20 dvd y}"
  by (auto simp: grid_def set_range_step_20)

lemma sorted_product:
  "sorted_wrt (<) xs \<Longrightarrow> sorted_wrt (<) ys \<Longrightarrow> sorted_wrt lex_before (List.product xs ys)"
  by (induction xs) (auto simp: sorted_wrt_append sorted_wrt_map lex_before_def)

lemma sorted_grid: "sorted_wrt lex_before (grid scr)"
  by (simp add: grid_def sorted_product sorted_range_step split: prod.split)

lemma find_sorted_first:
  "sorted_wrt R ps \<Longrightarrow> List.find P ps = Some p \<Longrightarrow> q \<in> set ps \<Longrightarrow> P q \<Longrightarrow> q = p \<or> R p q"
  by (induction ps) (auto split: if_splits)

lemma green_loop_find:
  "\<forall>p \<in> set ps. fst p < fst (size_wh scr) \<and> snd p < snd (size_wh scr) \<Longrightarrow>
   green_loop scr r ps =
     (case List.find (\<lambda>p. green_hit (pixel scr p)) ps of
        None \<Rightarrow> ([], Inr False)
      | Some p \<Rightarrow> ([MouseMove (rect0 r + int (fst p)) (rect1 r + int (snd p)), MouseClick], Inr True))"
  by (induction ps) (auto simp: getpixel_def green_hit_def split: prod.splits)

lemma collect_green_find:
  "collect_green scr r =
     (case List.find (\<lambda>p. green_hit (pixel scr p)) (grid scr) of
        None \<Rightarrow> ([], Inr False)
      | Some p \<Rightarrow> ([MouseMove (rect0 r + int (fst p)) (rect1 r + int (snd p)), MouseClick], Inr True))"
  unfolding collect_green_def
  by (rule green_loop_find) (auto simp: set_grid[OF surjective_pairing])


lemma grid_40: "size_wh scr = (40, 40) \<Longrightarrow> grid scr = [(0, 0), (0, 20), (20, 0), (20, 20)]"
  by (simp add: grid_def range_step_def upt_rec)


section \<open>Scan order of the green-marker detector\<close>

text \<open>
  C3, as amended. The green-marker detector samples only points whose \<open>x\<close> and \<open>y\<close> are
  both multiples of 20 inside the image. Either no sampled point matches and it returns
  \<open>False\<close> without a pointer action, or it clicks a matching sampled point and returns
  \<open>True\<close>, and that point is the first one in the order of \<open>product\<close>, which is
  column-major: \<open>x\<close> advances in the outer loop and \<open>y\<close> in the inner one. Of two matching
  grid points the one with the smaller \<open>x\<close> (and, for equal \<open>x\<close>, the smaller \<open>y\<close>) is
  reported.
\<close>

theorem collect_green_scan_order:
  assumes "size_wh scr = (w, h)"
  shows "(collect_green scr r = ([], Inr False) \<and>
          (\<forall>x y. x < w \<and> y < h \<and> 20 dvd x \<and> 20 dvd y \<longrightarrow> \<not> green_hit (pixel scr (x, y))))
       \<or> (\<exists>x y. x < w \<and> y < h \<and> 20 dvd x \<and> 20 dvd y \<and> green_hit (pixel scr (x, y)) \<and>
             collect_green scr r =
               ([MouseMove (rect0 r + int x) (rect1 r + int y), MouseClick], Inr True) \<and>
             (\<forall>x' y'. x' < w \<and> y' < h \<and> 20 dvd x' \<and> 20 dvd y' \<and> green_hit (pixel scr (x', y'))
                \<longrightarrow> x < x' \<or> (x = x' \<and> y \<le> y')))"
proof (cases "List.find (\<lambda>p. green_hit (pixel scr p)) (grid scr)")
  case None
  then have "collect_green scr r = ([], Inr False)"
    by (simp add: collect_green_find)
  moreover have "\<forall>x y. x < w \<and> y < h \<and> 20 dvd x \<and> 20 dvd y \<longrightarrow> \<not> green_hit (pixel scr (x, y))"
    using None by (auto simp: find_None_iff set_grid[OF assms])
  ultimately show ?thesis by blast
next
  case (Some p)
  obtain x y where p: "p = (x, y)" by (cases p)
  have mem: "(x, y) \<in> set (grid scr)" and hit: "green_hit (pixel scr (x, y))"
    using Some p by (auto simp: find_Some_iff)
  have res: "collect_green scr r =
      ([MouseMove (rect0 r + int x) (rect1 r + int y), MouseClick], Inr True)"
    using Some p by (simp add: collect_green_find)
  have first: "x < x' \<or> (x = x' \<and> y \<le> y')"
    if "x' < w \<and> y' < h \<and> 20 dvd x' \<and> 20 dvd y' \<and> green_hit (pixel scr (x', y'))" for x' y'
  proof -
    have "(x', y') \<in> set (grid scr)" using that by (simp add: set_grid[OF assms])
    then have "(x', y') = (x, y) \<or> lex_before (x, y) (x', y')"
      using find_sorted_first[OF sorted_grid, of _ scr "(x, y)" "(x', y')"] Some p that
      by blast
    then show ?thesis by (auto simp: lex_before_def)
  qed
  from mem have "x < w \<and> y < h \<and> 20 dvd x \<and> 20 dvd y" by (simp add: set_grid[OF assms])
  with hit res first show ?thesis by blast
qed

theorem collect_green_scan_order_witness:
  "size_wh scan_order_screen = (40, 40) \<and>
   (\<exists>x y. collect_green scan_order_screen (0, 0, 40, 40) =
       ([MouseMove (rect0 (0, 0, 40, 40) + int x) (rect1 (0, 0, 40, 40) + int y), MouseClick],
        Inr True) \<and>
     (x < 20 \<or> (x = 20 \<and> y \<le> 0)))"
proof -
  have h: "size_wh scan_order_screen = (40, 40)" by (simp add: scan_order_screen_def)
  have hit: "green_hit (pixel scan_order_screen (20, 0))"
    by (simp add: scan_order_screen_def green_hit_def greenish_range_def avoid_color_def)
  have b: "(20::nat) < 40 \<and> (0::nat) < 40 \<and> (20::nat) dvd 20 \<and> (20::nat) dvd 0" by simp
  from collect_green_scan_order[OF h, of "(0, 0, 40, 40)"]
  consider
    (none) "\<forall>x y. x < 40 \<and> y < 40 \<and> 20 dvd x \<and> 20 dvd y \<longrightarrow>
       \<not> green_hit (pixel scan_order_screen (x, y))"
  | (found) x y where
      "collect_green scan_order_screen (0, 0, 40, 40) =
         ([MouseMove (rect0 (0, 0, 40, 40) + int x) (rect1 (0, 0, 40, 40) + int y), MouseClick],
          Inr True)"
      "\<forall>x' y'. x' < 40 \<and> y' < 40 \<and> 20 dvd x' \<and> 20 dvd y' \<and>
         green_hit (pixel scan_order_screen (x', y')) \<longrightarrow> x < x' \<or> (x = x' \<and> y \<le> y')"
    by blast
  then show ?thesis
  proof cases
    case none
    with hit b show ?thesis by blast
  next
    case found
    from found(2) hit b have "x < 20 \<or> (x = 20 \<and> y \<le> 0)" by blast
    with found(1) h show ?thesis by blast
  qed
qed

text \<open>
  C3 as stated (row-major, the smaller \<open>y\<close> first) fails: with matches at \<open>(20, 0)\<close> and
  \<open>(0, 20)\<close> the detector reports \<open>(0, 20)\<close>, the point with the larger \<open>y\<close>.
\<close>

theorem collect_green_row_major_counterexample:
  "green_hit (pixel scan_order_screen (20, 0)) \<and> green_hit (pixel scan_order_screen (0, 20)) \<and>
   (0::nat) < 20 \<and>
   collect_green scan_order_screen (0, 0, 40, 40) = ([MouseMove 0 20, MouseClick], Inr True)"
proof -
  have g: "grid scan_order_screen = [(0, 0), (0, 20), (20, 0), (20, 20)]"
    by (rule grid_40) (simp add: scan_order_screen_def)
  show ?thesis
    by (simp add: collect_green_def g)
       (simp add: scan_order_screen_def getpixel_def green_hit_def greenish_range_def
          avoid_color_def rect0_def rect1_def)
qed

section \<open>Classification of a pixel by the green-marker detector\<close>

lemma green_hit_spec: "green_hit c = green_match_spec c"
  by (cases c) (auto simp: green_hit_def green_match_spec_def greenish_range_def avoid_color_def)

lemma green_loop_single:
  "x < fst (size_wh scr) \<Longrightarrow> y < snd (size_wh scr) \<Longrightarrow>
   green_loop scr r [(x, y)] =
     (if green_hit (pixel scr (x, y))
      then ([MouseMove (rect0 r + int x) (rect1 r + int y), MouseClick], Inr True)
      else ([], Inr False))"
  by (cases "size_wh scr") (auto simp: getpixel_def green_hit_def)

text \<open>
  C4. A sampled pixel makes the green-marker loop click and return \<open>True\<close> exactly when
  its blue channel is below 125, its red channel is in \<open>[102, 220)\<close>, its green channel
  is in \<open>[200, 255)\<close> and it is not exactly \<open>(196, 247, 94)\<close>; otherwise the loop goes
  on to the next point. Hence the detector returns \<open>True\<close> exactly when some sampled
  grid point is such a pixel, and it never raises. The colour \<open>(196, 247, 94)\<close> is in the
  green-ish range and still is no match: a screenshot whose sampled points all have it
  gives \<open>False\<close> and no pointer action.
\<close>

theorem collect_green_classification:
  assumes "size_wh scr = (w, h)"
  shows "(\<forall>x y. x < w \<and> y < h \<longrightarrow>
            green_loop scr r [(x, y)] =
              (if green_match_spec (pixel scr (x, y))
               then ([MouseMove (rect0 r + int x) (rect1 r + int y), MouseClick], Inr True)
               else ([], Inr False)))
       \<and> (snd (collect_green scr r) = Inr True) =
            (\<exists>x y. x < w \<and> y < h \<and> 20 dvd x \<and> 20 dvd y \<and> green_match_spec (pixel scr (x, y)))
       \<and> (snd (collect_green scr r) = Inr True \<or> collect_green scr r = ([], Inr False))
       \<and> ((\<forall>x y. x < w \<and> y < h \<and> 20 dvd x \<and> 20 dvd y \<longrightarrow> pixel scr (x, y) = (196, 247, 94))
            \<longrightarrow> collect_green scr r = ([], Inr False))
       \<and> greenish_range (196, 247, 94) \<and> \<not> green_match_spec (196, 247, 94)"
proof -
  have single: "\<forall>x y. x < w \<and> y < h \<longrightarrow>
            green_loop scr r [(x, y)] =
              (if green_match_spec (pixel scr (x, y))
               then ([MouseMove (rect0 r + int x) (rect1 r + int y), MouseClick], Inr True)
               else ([], Inr False))"
    using assms by (simp add: green_loop_single green_hit_spec del: green_loop.simps)
  have found: "(snd (collect_green scr r) = Inr True) =
            (\<exists>x y. x < w \<and> y < h \<and> 20 dvd x \<and> 20 dvd y \<and> green_match_spec (pixel scr (x, y)))"
  proof (cases "List.find (\<lambda>p. green_hit (pixel scr p)) (grid scr)")
    case None
    then have res: "collect_green scr r = ([], Inr False)"
      by (simp add: collect_green_find)
    have "\<not> (\<exists>x y. x < w \<and> y < h \<and> 20 dvd x \<and> 20 dvd y \<and> green_match_spec (pixel scr (x, y)))"
      using None by (auto simp: find_None_iff set_grid[OF assms] green_hit_spec)
    with res show ?thesis by simp
  next
    case (Some p)
    then have "p \<in> set (grid scr) \<and> green_hit (pixel scr p)"
      by (auto simp: find_Some_iff)
    then have "\<exists>x y. x < w \<and> y < h \<and> 20 dvd x \<and> 20 dvd y \<and> green_match_spec (pixel scr (x, y))"
      by (cases p) (auto simp: set_grid[OF assms] green_hit_spec)
    then show ?thesis using Some by (simp add: collect_green_find)
  qed
  have total: "snd (collect_green scr r) = Inr True \<or> collect_green scr r = ([], Inr False)"
    by (simp add: collect_green_find split: option.split)
  have avoid: "\<not> green_match_spec (196, 247, 94)" "greenish_range (196, 247, 94)"
    by (simp_all add: green_match_spec_def greenish_range_def)
  have excl: "(\<forall>x y. x < w \<and> y < h \<and> 20 dvd x \<and> 20 dvd y \<longrightarrow> pixel scr (x, y) = (196, 247, 94))
            \<longrightarrow> collect_green scr r = ([], Inr False)"
  proof
    assume a: "\<forall>x y. x < w \<and> y < h \<and> 20 dvd x \<and> 20 dvd y \<longrightarrow> pixel scr (x, y) = (196, 247, 94)"
    have "\<not> (\<exists>x y. x < w \<and> y < h \<and> 20 dvd x \<and> 20 dvd y \<and> green_match_spec (pixel scr (x, y)))"
      using a avoid(1) by auto
    with found total show "collect_green scr r = ([], Inr False)" by blast
  qed
  from single found total excl avoid show ?thesis by blast
qed

theorem collect_green_classification_witness:
  "size_wh avoid_screen = (40, 40) \<and>
   pixel avoid_screen (0, 0) = (196, 247, 94) \<and> pixel avoid_screen (0, 20) = (196, 247, 94) \<and>
   pixel avoid_screen (20, 0) = (196, 247, 94) \<and> pixel avoid_screen (20, 20) = (196, 247, 94) \<and>
   collect_green avoid_screen (0, 0, 40, 40) = ([], Inr False) \<and>
   green_loop avoid_screen (0, 0, 40, 40) [(20, 20)] = ([], Inr False)"
proof -
  have h: "size_wh avoid_screen = (40, 40)" by (simp add: avoid_screen_def)
  have p: "\<forall>x y. x < 40 \<and> y < 40 \<and> 20 dvd x \<and> 20 dvd y \<longrightarrow> pixel avoid_screen (x, y) = (196, 247, 94)"
    by (simp add: avoid_screen_def)
  have q: "pixel avoid_screen (0, 0) = (196, 247, 94)" "pixel avoid_screen (0, 20) = (196, 247, 94)"
    "pixel avoid_screen (20, 0) = (196, 247, 94)" "pixel avoid_screen (20, 20) = (196, 247, 94)"
    by (simp_all add: avoid_screen_def)
  note t = collect_green_classification[OF h, of "(0, 0, 40, 40)"]
  from t p have a: "collect_green avoid_screen (0, 0, 40, 40) = ([], Inr False)" by blast
  from t q(4) have b: "green_loop avoid_screen (0, 0, 40, 40) [(20, 20)] = ([], Inr False)"
    by simp
  from h q a b show ?thesis by (intro conjI)
qed

section \<open>Area filter of the face detector\<close>

lemma dog_loop_find:
  "dog_loop r cs =
     (case List.find (\<lambda>c. 500 < contourArea c \<and> contourArea c < 3000) cs of
        None \<Rightarrow> ([], Inr False)
      | Some c \<Rightarrow>
          (case boundingRect c of (x, y, w, h) \<Rightarrow>
             ([MouseMove (rect0 r + x + w div 2) (rect1 r + y + h div 2), MouseClick],
              Inr True)))"
  by (induction cs) (simp_all add: Let_def)

lemma collect_dog_find:
  "collect_dog fc scr r =
     (if fst (size_wh scr) = 0 \<or> snd (size_wh scr) = 0 then ([], Inl CvError)
      else case List.find (\<lambda>c. 500 < contourArea c \<and> contourArea c < 3000) (fc scr) of
             None \<Rightarrow> ([], Inr False)
           | Some c \<Rightarrow>
               (case boundingRect c of (x, y, w, h) \<Rightarrow>
                  ([MouseMove (rect0 r + x + w div 2) (rect1 r + y + h div 2), MouseClick],
                   Inr True)))"
  by (cases "size_wh scr") (simp add: collect_dog_def dog_loop_find)

lemma contourArea_rectangle:
  "contourArea [(x, y), (x, y + h), (x + w, y + h), (x + w, y)] = \<bar>real_of_int (w * h)\<bar>"
proof -
  have "x * (y + h) - y * x + (x * (y + h) - (y + h) * (x + w)) +
        ((x + w) * y - (y + h) * (x + w)) + ((x + w) * y - y * x) = - 2 * (w * h)"
    by (simp add: algebra_simps)
  then have "sum_list (map (\<lambda>(prev, cur). fst prev * snd cur - snd prev * fst cur)
        (zip (last [(x, y), (x, y + h), (x + w, y + h), (x + w, y)] #
              butlast [(x, y), (x, y + h), (x + w, y + h), (x + w, y)])
           [(x, y), (x, y + h), (x + w, y + h), (x + w, y)])) = - 2 * (w * h)"
    by (simp add: algebra_simps)
  then show ?thesis by (simp add: contourArea_def)
qed

lemma boundingRect_rectangle:
  "0 \<le> w \<Longrightarrow> 0 \<le> h \<Longrightarrow>
   boundingRect [(x, y), (x, y + h), (x + w, y + h), (x + w, y)] = (x, y, w + 1, h + 1)"
  by (simp add: boundingRect_def least_def greatest_def Let_def min_def max_def)

lemma length_filter_product:
  "length (filter (\<lambda>p. A (fst p) \<and> B (snd p)) (List.product xs ys)) =
     length (filter A xs) * length (filter B ys)"
proof (induction xs)
  case Nil
  then show ?case by simp
next
  case (Cons x xs)
  have "length (filter (\<lambda>p. A (fst p) \<and> B (snd p)) (map (Pair x) ys)) =
      (if A x then length (filter B ys) else 0)"
    by (induction ys) simp_all
  with Cons show ?case by simp
qed

lemma white_square_area: "white_area white_square_screen = 529"
proof -
  have "white_area white_square_screen =
      length (filter (\<lambda>p. (1 \<le> fst p \<and> fst p \<le> 23) \<and> (1 \<le> snd p \<and> snd p \<le> 23))
                (List.product [0..<25] [0..<25]))"
    by (simp add: white_area_def white_square_screen_def conj_ac)
  also have "\<dots> = length (filter (\<lambda>x. 1 \<le> x \<and> x \<le> 23) [0..<25]) *
      length (filter (\<lambda>y. 1 \<le> y \<and> y \<le> 23) [0..<25])"
    by (rule length_filter_product)
  also have "length (filter (\<lambda>x. 1 \<le> x \<and> x \<le> 23) [0..<25::nat]) = 23"
    by code_simp
  finally show ?thesis by simp
qed

lemma large_square_area: "white_area large_square_screen = 3025"
proof -
  have "white_area large_square_screen =
      length (filter (\<lambda>p. (1 \<le> fst p \<and> fst p \<le> 55) \<and> (1 \<le> snd p \<and> snd p \<le> 55))
                (List.product [0..<57] [0..<57]))"
    by (simp add: white_area_def large_square_screen_def conj_ac)
  also have "\<dots> = length (filter (\<lambda>x. 1 \<le> x \<and> x \<le> 55) [0..<57]) *
      length (filter (\<lambda>y. 1 \<le> y \<and> y \<le> 55) [0..<57])"
    by (rule length_filter_product)
  also have "length (filter (\<lambda>x. 1 \<le> x \<and> x \<le> 55) [0..<57::nat]) = 55"
    by code_simp
  finally show ?thesis by simp
qed

text \<open>
  C6, as amended. On a screenshot with pixels the face detector goes through the
  contours in the order OpenCV returned them and accepts the first whose
  \<open>cv2.contourArea\<close> lies strictly between 500 and 3000; that area is the area of the
  polygon through the contour's vertices (for the contour of a filled rectangle of
  \<open>w + 1\<close> by \<open>h + 1\<close> pixels it is \<open>w * h\<close>), not the number of pixels of the region.
  Contours of area 400, 500, 3000 and 3500 are rejected, one of area 1000 is accepted.
  For the accepted contour it clicks the centre of the bounding box,
  \<open>rect.origin + (x + w // 2, y + h // 2)\<close>, and returns \<open>True\<close>; with no such contour it
  returns \<open>False\<close> without a pointer action. On a screenshot without pixels it raises
  \<open>cv2.error\<close>.
\<close>

theorem collect_dog_area_filter:
  "collect_dog findContours scr r =
     (if fst (size_wh scr) = 0 \<or> snd (size_wh scr) = 0 then ([], Inl CvError)
      else case List.find (\<lambda>c. 500 < contourArea c \<and> contourArea c < 3000) (findContours scr) of
             None \<Rightarrow> ([], Inr False)
           | Some c \<Rightarrow>
               (case boundingRect c of (x, y, w, h) \<Rightarrow>
                  ([MouseMove (rect0 r + x + w div 2) (rect1 r + y + h div 2), MouseClick],
                   Inr True)))
   \<and> contourArea [(x, y), (x, y + h), (x + w, y + h), (x + w, y)] = \<bar>real_of_int (w * h)\<bar>
   \<and> contourArea [(0, 0), (0, 20), (20, 20), (20, 0)] = 400
   \<and> collect_dog (\<lambda>_. [[(0, 0), (0, 20), (20, 20), (20, 0)]]) example_screen r = ([], Inr False)
   \<and> contourArea [(0, 0), (0, 70), (50, 70), (50, 0)] = 3500
   \<and> collect_dog (\<lambda>_. [[(0, 0), (0, 70), (50, 70), (50, 0)]]) example_screen r = ([], Inr False)
   \<and> contourArea [(0, 0), (0, 25), (20, 25), (20, 0)] = 500
   \<and> collect_dog (\<lambda>_. [[(0, 0), (0, 25), (20, 25), (20, 0)]]) example_screen r = ([], Inr False)
   \<and> contourArea [(0, 0), (0, 60), (50, 60), (50, 0)] = 3000
   \<and> collect_dog (\<lambda>_. [[(0, 0), (0, 60), (50, 60), (50, 0)]]) example_screen r = ([], Inr False)
   \<and> contourArea [(30, 40), (30, 80), (55, 80), (55, 40)] = 1000
   \<and> boundingRect [(30, 40), (30, 80), (55, 80), (55, 40)] = (30, 40, 26, 41)
   \<and> collect_dog (\<lambda>_. [[(30, 40), (30, 80), (55, 80), (55, 40)]]) example_screen (100, 50, 400, 300) =
       ([MouseMove 143 110, MouseClick], Inr True)
   \<and> collect_dog (\<lambda>_. [[(0, 0), (0, 20), (20, 20), (20, 0)],
                         [(30, 40), (30, 80), (55, 80), (55, 40)],
                         [(100, 100), (100, 140), (140, 140), (140, 100)]])
        example_screen (100, 50, 400, 300) = ([MouseMove 143 110, MouseClick], Inr True)"
proof -
  have sz: "fst (size_wh example_screen) \<noteq> 0 \<and> snd (size_wh example_screen) \<noteq> 0"
    by (simp add: example_screen_def)
  have a400: "contourArea [(0, 0), (0, 20), (20, 20), (20, 0)] = 400"
    using contourArea_rectangle[of 0 0 20 20] by simp
  have a3500: "contourArea [(0, 0), (0, 70), (50, 70), (50, 0)] = 3500"
    using contourArea_rectangle[of 0 0 70 50] by simp
  have a500: "contourArea [(0, 0), (0, 25), (20, 25), (20, 0)] = 500"
    using contourArea_rectangle[of 0 0 25 20] by simp
  have a3000: "contourArea [(0, 0), (0, 60), (50, 60), (50, 0)] = 3000"
    using contourArea_rectangle[of 0 0 60 50] by simp
  have a1000: "contourArea [(30, 40), (30, 80), (55, 80), (55, 40)] = 1000"
    using contourArea_rectangle[of 30 40 40 25] by simp
  have a1600: "contourArea [(100, 100), (100, 140), (140, 140), (140, 100)] = 1600"
    using contourArea_rectangle[of 100 100 40 40] by simp
  have box: "boundingRect [(30, 40), (30, 80), (55, 80), (55, 40)] = (30, 40, 26, 41)"
    using boundingRect_rectangle[of 25 40 30 40] by simp
  show ?thesis
    by (intro conjI collect_dog_find contourArea_rectangle a400 a3500 a500 a3000 a1000 box)
       (simp_all add: collect_dog_find sz a400 a3500 a500 a3000 a1000 a1600 box
          rect0_def rect1_def)
qed

text \<open>
  C6 as stated, with the area of a region being its number of pixels, fails: a white
  square of 529 pixels, between 500 and 3000, is rejected because the area of its
  contour is 484, and a white square of 3025 pixels, above 3000, is accepted because
  the area of its contour is 2916.
\<close>

theorem collect_dog_pixel_area_counterexample:
  "white_area white_square_screen = 529 \<and> (500::nat) < 529 \<and> (529::nat) < 3000 \<and>
   contourArea [(1, 1), (1, 23), (23, 23), (23, 1)] = 484 \<and>
   collect_dog white_square_contours white_square_screen (0, 0, 25, 25) = ([], Inr False) \<and>
   white_area large_square_screen = 3025 \<and> (3000::nat) < 3025 \<and>
   contourArea [(1, 1), (1, 55), (55, 55), (55, 1)] = 2916 \<and>
   collect_dog large_square_contours large_square_screen (0, 0, 57, 57) =
     ([MouseMove 28 28, MouseClick], Inr True)"
proof -
  have a: "contourArea [(1, 1), (1, 23), (23, 23), (23, 1)] = 484"
    using contourArea_rectangle[of 1 1 22 22] by simp
  have b: "contourArea [(1, 1), (1, 55), (55, 55), (55, 1)] = 2916"
    using contourArea_rectangle[of 1 1 54 54] by simp
  have box: "boundingRect [(1, 1), (1, 55), (55, 55), (55, 1)] = (1, 1, 55, 55)"
    using boundingRect_rectangle[of 54 54 1 1] by simp
  have c: "collect_dog white_square_contours white_square_screen (0, 0, 25, 25) = ([], Inr False)"
    by (simp add: collect_dog_find white_square_contours_def white_square_screen_def a)
  have d: "collect_dog large_square_contours large_square_screen (0, 0, 57, 57) =
     ([MouseMove 28 28, MouseClick], Inr True)"
    by (simp add: collect_dog_find large_square_contours_def large_square_screen_def b box
          rect0_def rect1_def)
  from white_square_area a c large_square_area b d show ?thesis by simp
qed

section \<open>Window not found\<close>

text \<open>
  C9. When the window locator answers nothing, \<open>run\<close> asks for the window, logs
  \<open>WINDOW_NOT_FOUND\<close> at error level and returns: there is no capture call, no detector
  call and no pointer action, whatever the outside world would have supplied to the
  loop.
\<close>

theorem run_window_absent:
  "run findContours None envs self =
     ([GetWindow, Log Error ''WINDOW_NOT_FOUND'' []], Returned)
   \<and> Capture r \<notin> set (fst (run findContours None envs self))
   \<and> Call d \<notin> set (fst (run findContours None envs self))
   \<and> MouseClick \<notin> set (fst (run findContours None envs self))"
  by (simp add: run_def)

section \<open>Shape of a detector's result\<close>

lemma freeze_loop_find:
  "\<forall>p \<in> set ps. fst p < fst (size_wh scr) \<and> snd p < snd (size_wh scr) \<Longrightarrow>
   freeze_loop scr r ps =
     (case List.find (\<lambda>p. blueish_range (pixel scr p)) ps of
        None \<Rightarrow> ([], Inr False)
      | Some p \<Rightarrow> ([MouseMove (rect0 r + int (fst p)) (rect1 r + int (snd p)), MouseClick], Inr True))"
  by (induction ps) (auto simp: getpixel_def split: prod.splits)

lemma collect_freeze_find:
  "collect_freeze scr r =
     (case List.find (\<lambda>p. blueish_range (pixel scr p)) (grid scr) of
        None \<Rightarrow> ([], Inr False)
      | Some p \<Rightarrow> ([MouseMove (rect0 r + int (fst p)) (rect1 r + int (snd p)), MouseClick], Inr True))"
  unfolding collect_freeze_def
  by (rule freeze_loop_find) (auto simp: set_grid[OF surjective_pairing])

lemma collect_green_shape:
  "collect_green scr r = ([], Inr False) \<or>
   (\<exists>a b. collect_green scr r = ([MouseMove a b, MouseClick], Inr True))"
  by (simp add: collect_green_find split: option.split)

lemma collect_freeze_shape:
  "collect_freeze scr r = ([], Inr False) \<or>
   (\<exists>a b. collect_freeze scr r = ([MouseMove a b, MouseClick], Inr True))"
  by (simp add: collect_freeze_find split: option.split)

lemma collect_dog_shape:
  "collect_dog fc scr r = ([], Inr False) \<or> collect_dog fc scr r = ([], Inl CvError) \<or>
   (\<exists>a b. collect_dog fc scr r = ([MouseMove a b, MouseClick], Inr True))"
  by (simp add: collect_dog_find split: option.split prod.split)

lemma collect_dog_raises:
  "isl (snd (collect_dog fc scr r)) = (fst (size_wh scr) = 0 \<or> snd (size_wh scr) = 0)"
  by (simp add: collect_dog_find split: option.split prod.split)

lemma product_Nil_right: "List.product xs [] = []"
  by (induction xs) simp_all

lemma grid_empty: "fst (size_wh scr) = 0 \<or> snd (size_wh scr) = 0 \<Longrightarrow> grid scr = []"
  by (cases "size_wh scr") (auto simp: grid_def range_step_def product_Nil_right)

lemma collect_green_empty:
  "fst (size_wh scr) = 0 \<or> snd (size_wh scr) = 0 \<Longrightarrow> collect_green scr r = ([], Inr False)"
  by (simp add: collect_green_def grid_empty)

lemma collect_freeze_empty:
  "fst (size_wh scr) = 0 \<or> snd (size_wh scr) = 0 \<Longrightarrow> collect_freeze scr r = ([], Inr False)"
  by (simp add: collect_freeze_def grid_empty)

lemma button_rows_no_columns:
  "fst (size_wh scr) = 0 \<Longrightarrow> button_rows scr r ys = ([], Inr False)"
  by (induction ys) simp_all

lemma collect_button_empty:
  "fst (size_wh scr) = 0 \<or> snd (size_wh scr) = 0 \<Longrightarrow> collect_button scr r = ([], Inr False)"
  by (cases "size_wh scr") (auto simp: collect_button_def button_rows_no_columns)

lemma button_row_shape:
  "button_row scr r y xs = ([], Inr False) \<or> (\<exists>e. button_row scr r y xs = ([], Inl e)) \<or>
   (\<exists>a b. button_row scr r y xs = ([MouseMove a b, MouseClick], Inr True))"
  by (induction xs) (auto split: sum.splits bool.splits)

lemma button_rows_shape:
  "button_rows scr r ys = ([], Inr False) \<or> (\<exists>e. button_rows scr r ys = ([], Inl e)) \<or>
   (\<exists>a b. button_rows scr r ys = ([MouseMove a b, MouseClick], Inr True))"
proof (induction ys)
  case Nil
  then show ?case by simp
next
  case (Cons y ys)
  from button_row_shape[of scr r y "[0..<fst (size_wh scr)]"] Cons show ?case
    by (auto simp del: button_row.simps)
qed

lemma collect_button_shape:
  "collect_button scr r = ([], Inr False) \<or> (\<exists>e. collect_button scr r = ([], Inl e)) \<or>
   (\<exists>a b. collect_button scr r = ([MouseMove a b, MouseClick], Inr True))"
  by (simp add: collect_button_def button_rows_shape split: prod.split)


section \<open>One active iteration of the loop\<close>

lemma collect_green_result:
  "snd (collect_green scr r) = Inr True \<or> snd (collect_green scr r) = Inr False"
  using collect_green_shape[of scr r] by auto

lemma active_tick_unfold:
  "active_tick fc env =
     (let r = window_rect env; scr = screenshot env;
          g = collect_green scr r; f = collect_freeze scr r;
          d = collect_dog fc scr r; b = collect_button scr r;
          dog_raised = (collect_dogs env \<and> isl (snd d))
      in ([GetRect, Capture r, Call Green] @ fst g @ [Call Freeze] @ fst f @
          (if collect_dogs env then Call Dog # fst d else []) @
          (if snd g = Inr False \<and> \<not> dog_raised then Call Button # fst b else []),
          if dog_raised then Inl CvError
          else if snd g = Inr True then Inr ()
          else (case snd b of Inl e \<Rightarrow> Inl e | Inr _ \<Rightarrow> Inr ())))"
  using collect_green_shape[of "screenshot env" "window_rect env"]
        collect_freeze_shape[of "screenshot env" "window_rect env"]
        collect_dog_shape[of fc "screenshot env" "window_rect env"]
        collect_button_shape[of "screenshot env" "window_rect env"]
  by (auto simp: active_tick_def bind_io_def call_def Let_def)

lemma count_click_green:
  "count_list (fst (collect_green scr r)) MouseClick = (if snd (collect_green scr r) = Inr True then 1 else 0)
   \<and> (\<forall>d. count_list (fst (collect_green scr r)) (Call d) = 0)"
  using collect_green_shape[of scr r] by auto

lemma count_click_freeze:
  "count_list (fst (collect_freeze scr r)) MouseClick = (if snd (collect_freeze scr r) = Inr True then 1 else 0)
   \<and> (\<forall>d. count_list (fst (collect_freeze scr r)) (Call d) = 0)"
  using collect_freeze_shape[of scr r] by auto

lemma count_click_dog:
  "count_list (fst (collect_dog fc scr r)) MouseClick = (if snd (collect_dog fc scr r) = Inr True then 1 else 0)
   \<and> (\<forall>d. count_list (fst (collect_dog fc scr r)) (Call d) = 0)"
  using collect_dog_shape[of fc scr r] by auto

lemma count_click_button:
  "count_list (fst (collect_button scr r)) MouseClick = (if snd (collect_button scr r) = Inr True then 1 else 0)
   \<and> (\<forall>d. count_list (fst (collect_button scr r)) (Call d) = 0)"
  using collect_button_shape[of scr r] by auto

lemma grid_20_40: "size_wh scr = (20, 40) \<Longrightarrow> grid scr = [(0, 0), (0, 20)]"
  by (simp add: grid_def range_step_def upt_rec)

lemma two_markers_green:
  "collect_green two_markers_screen (100, 50, 20, 40) = ([MouseMove 100 50, MouseClick], Inr True)"
proof -
  have g: "grid two_markers_screen = [(0, 0), (0, 20)]"
    by (rule grid_20_40) (simp add: two_markers_screen_def)
  show ?thesis
    by (simp add: collect_green_def g)
       (simp add: two_markers_screen_def getpixel_def greenish_range_def
          avoid_color_def rect0_def rect1_def)
qed

lemma two_markers_freeze:
  "collect_freeze two_markers_screen (100, 50, 20, 40) = ([MouseMove 100 70, MouseClick], Inr True)"
proof -
  have g: "grid two_markers_screen = [(0, 0), (0, 20)]"
    by (rule grid_20_40) (simp add: two_markers_screen_def)
  show ?thesis
    by (simp add: collect_freeze_def g)
       (simp add: two_markers_screen_def getpixel_def blueish_range_def rect0_def rect1_def)
qed

lemma two_markers_tick:
  "active_tick fc two_markers_env =
     ([GetRect, Capture (100, 50, 20, 40), Call Green, MouseMove 100 50, MouseClick,
       Call Freeze, MouseMove 100 70, MouseClick], Inr ())"
  by (simp add: active_tick_unfold Let_def)
     (simp add: two_markers_env_def two_markers_green two_markers_freeze)


section \<open>Which detectors an active iteration calls\<close>




section \<open>Pointer actions of an active iteration\<close>

text \<open>
  C7, as amended. Every detector clicks by itself when it finds a match, so an active
  iteration performs one pointer action for each called detector that returns \<open>True\<close>:
  at most one per detector and at most three in the iteration (the button detector is
  only called when the green-marker detector found nothing).
\<close>

theorem active_tick_pointer_actions:
  "(let r = window_rect env; scr = screenshot env;
        g = collect_green scr r; f = collect_freeze scr r;
        d = collect_dog fc scr r; b = collect_button scr r
    in count_list (fst (active_tick fc env)) MouseClick =
         (if snd g = Inr True then 1 else 0) + (if snd f = Inr True then 1 else 0) +
         (if collect_dogs env \<and> snd d = Inr True then 1 else 0) +
         (if snd g \<noteq> Inr True \<and> snd b = Inr True then 1 else 0)
       \<and> count_list (fst g) MouseClick \<le> 1 \<and> count_list (fst f) MouseClick \<le> 1
       \<and> count_list (fst d) MouseClick \<le> 1 \<and> count_list (fst b) MouseClick \<le> 1)
   \<and> count_list (fst (active_tick fc env)) MouseClick \<le> 3"
proof -
  let ?r = "window_rect env" and ?scr = "screenshot env"
  have n: "count_list (fst (active_tick fc env)) MouseClick =
         (if snd (collect_green ?scr ?r) = Inr True then 1 else 0) +
         (if snd (collect_freeze ?scr ?r) = Inr True then 1 else 0) +
         (if collect_dogs env \<and> snd (collect_dog fc ?scr ?r) = Inr True then 1 else 0) +
         (if snd (collect_green ?scr ?r) \<noteq> Inr True \<and> snd (collect_button ?scr ?r) = Inr True
          then 1 else 0)"
  proof (cases "collect_dogs env \<and> isl (snd (collect_dog fc ?scr ?r))")
    case True
    then have e: "fst (size_wh ?scr) = 0 \<or> snd (size_wh ?scr) = 0"
      by (simp add: collect_dog_raises)
    have d: "collect_dog fc ?scr ?r = ([], Inl CvError)"
      using e by (simp add: collect_dog_find)
    show ?thesis
      by (simp add: active_tick_unfold Let_def collect_green_empty[OF e]
            collect_freeze_empty[OF e] collect_button_empty[OF e] d)
  next
    case False
    with collect_green_result[of ?scr ?r] show ?thesis
      by (auto simp: active_tick_unfold Let_def
            count_click_green count_click_freeze count_click_dog count_click_button)
  qed
  have le: "count_list (fst (active_tick fc env)) MouseClick \<le> 3"
    unfolding n by (simp split: if_splits)
  have each: "count_list (fst (collect_green ?scr ?r)) MouseClick \<le> 1"
    "count_list (fst (collect_freeze ?scr ?r)) MouseClick \<le> 1"
    "count_list (fst (collect_dog fc ?scr ?r)) MouseClick \<le> 1"
    "count_list (fst (collect_button ?scr ?r)) MouseClick \<le> 1"
    by (simp_all add: count_click_green count_click_freeze count_click_dog count_click_button)
  from n le each show ?thesis by (simp only: Let_def)
qed

text \<open>
  C7 as stated fails: on a screenshot with a green-ish pixel at \<open>(0, 0)\<close> and a blue-ish
  pixel at \<open>(0, 20)\<close> the green-marker and the freeze-marker detectors both click in
  the same iteration.
\<close>

theorem active_tick_two_clicks_counterexample:
  "fst (active_tick no_contours two_markers_env) =
     [GetRect, Capture (100, 50, 20, 40), Call Green, MouseMove 100 50, MouseClick,
      Call Freeze, MouseMove 100 70, MouseClick]
   \<and> count_list (fst (active_tick no_contours two_markers_env)) MouseClick = 2"
  by (simp add: two_markers_tick)

section \<open>The button detector, pixel by pixel\<close>

lemma all_below_sorted:
  assumes "size_wh scr = (w, h)" "x < w" "sorted offs"
  shows "all_below scr x y offs =
     (if \<forall>off \<in> set offs. y + off < h \<longrightarrow> pixel scr (x, y + off) = button_color
      then (if \<forall>off \<in> set offs. y + off < h then Inr True else Inl IndexError)
      else Inr False)"
  using assms(3)
proof (induction offs)
  case Nil
  then show ?case by simp
next
  case (Cons a offs)
  then have ih: "all_below scr x y offs =
     (if \<forall>off \<in> set offs. y + off < h \<longrightarrow> pixel scr (x, y + off) = button_color
      then (if \<forall>off \<in> set offs. y + off < h then Inr True else Inl IndexError)
      else Inr False)"
    and le: "\<forall>off \<in> set offs. a \<le> off"
    by simp_all
  show ?case
  proof (cases "y + a < h")
    case True
    then show ?thesis using assms(1,2) ih by (simp add: getpixel_def)
  next
    case False
    then have "\<forall>off \<in> set offs. \<not> y + off < h" using le by auto
    then show ?thesis using assms(1,2) False by (simp add: getpixel_def)
  qed
qed

lemma all_below_range:
  assumes "size_wh scr = (w, h)" "x < w"
  shows "all_below scr x y [1..<10] =
     (if \<forall>off \<in> {1..<10}. y + off < h \<longrightarrow> pixel scr (x, y + off) = button_color
      then (if y + 9 < h then Inr True else Inl IndexError)
      else Inr False)"
proof -
  have "(\<forall>off \<in> {1..<10::nat}. y + off < h) = (y + 9 < h)"
  proof
    assume "\<forall>off \<in> {1..<10::nat}. y + off < h"
    then show "y + 9 < h" by simp
  next
    assume "y + 9 < h"
    then show "\<forall>off \<in> {1..<10::nat}. y + off < h" by auto
  qed
  then show ?thesis
    using all_below_sorted[OF assms, of "[1..<10]" y] by simp
qed

lemma text_beside_eq:
  assumes "size_wh scr = (w, h)" "x < w" "y < h"
  shows "text_beside scr x y =
     Inr ((x + 1 < w \<and> pixel scr (x + 1, y) = text_color) \<or>
          (0 < x \<and> pixel scr (x - 1, y) = text_color))"
  using assms by (auto simp: text_beside_def getpixel_def split: bool.splits)

lemma button_row_step:
  assumes "size_wh scr = (w, h)" "x < w" "y < h"
  shows "button_row scr r y (x # rest) =
     (if button_hit scr x y then button_click r x y
      else if button_overrun scr x y then ([], Inl IndexError)
      else button_row scr r y rest)"
proof -
  let ?white = "\<forall>off \<in> {1..<10}. y + off < h \<longrightarrow> pixel scr (x, y + off) = button_color"
  let ?text = "(x + 1 < w \<and> pixel scr (x + 1, y) = text_color) \<or>
               (0 < x \<and> pixel scr (x - 1, y) = text_color)"
  have px: "getpixel scr (x, y) = Inr (pixel scr (x, y))"
    using assms by (simp add: getpixel_def)
  have ab: "all_below scr x y [1..<10] =
     (if ?white then (if y + 9 < h then Inr True else Inl IndexError) else Inr False)"
    by (rule all_below_range[OF assms(1,2)])
  have tb: "text_beside scr x y = Inr ?text"
    by (rule text_beside_eq[OF assms])
  have row: "button_row scr r y (x # rest) =
     (if pixel scr (x, y) = button_color then
        (if ?white then
           (if y + 9 < h then (if ?text then button_click r x y else button_row scr r y rest)
            else ([], Inl IndexError))
         else button_row scr r y rest)
      else button_row scr r y rest)"
    unfolding button_row.simps px ab tb button_click_def
    by (cases "pixel scr (x, y) = button_color"; cases ?white; cases "y + 9 < h"; cases ?text)
       (auto split: bool.splits simp del: One_nat_def)
  have hit: "button_hit scr x y =
     (pixel scr (x, y) = button_color \<and> y + 9 < h \<and> ?white \<and> ?text)"
    unfolding button_hit_def assms(1) by auto
  have over: "button_overrun scr x y =
     (pixel scr (x, y) = button_color \<and> \<not> y + 9 < h \<and> ?white)"
    unfolding button_overrun_def assms(1) by auto
  show ?thesis unfolding row hit over by auto
qed


lemma find_append_list:
  "List.find P (xs @ ys) = (case List.find P xs of None \<Rightarrow> List.find P ys | Some x \<Rightarrow> Some x)"
  by (induction xs) simp_all

lemma find_map_list: "List.find P (map f xs) = map_option f (List.find (\<lambda>x. P (f x)) xs)"
  by (induction xs) simp_all

lemma button_row_find:
  assumes "size_wh scr = (w, h)" "y < h"
  shows "\<forall>x \<in> set xs. x < w \<Longrightarrow>
     button_row scr r y xs =
       (case List.find (\<lambda>x. button_stop scr (y, x)) xs of
          None \<Rightarrow> ([], Inr False)
        | Some x \<Rightarrow> button_end scr r (y, x))"
proof (induction xs)
  case Nil
  then show ?case by simp
next
  case (Cons x xs)
  then have "x < w" by simp
  from button_row_step[OF assms(1) this assms(2), of r xs] Cons show ?case
    by (simp add: button_stop_def button_end_def del: button_row.simps)
qed

lemma button_rows_find:
  assumes "size_wh scr = (w, h)"
  shows "\<forall>y \<in> set ys. y < h \<Longrightarrow>
     button_rows scr r ys =
       (case List.find (button_stop scr) (List.product ys [0..<w]) of
          None \<Rightarrow> ([], Inr False)
        | Some p \<Rightarrow> button_end scr r p)"
proof (induction ys)
  case Nil
  then show ?case by simp
next
  case (Cons y ys)
  then have y: "y < h" by simp
  have row: "button_row scr r y [0..<w] =
       (case List.find (\<lambda>x. button_stop scr (y, x)) [0..<w] of
          None \<Rightarrow> ([], Inr False)
        | Some x \<Rightarrow> button_end scr r (y, x))"
    by (rule button_row_find[OF assms y]) simp
  have ih: "button_rows scr r ys =
       (case List.find (button_stop scr) (List.product ys [0..<w]) of
          None \<Rightarrow> ([], Inr False)
        | Some p \<Rightarrow> button_end scr r p)"
    using Cons by simp
  show ?case
  proof (cases "List.find (\<lambda>x. button_stop scr (y, x)) [0..<w]")
    case None
    then show ?thesis
      by (simp add: assms row ih find_append_list find_map_list)
  next
    case (Some x)
    then have "button_stop scr (y, x)" by (auto simp: find_Some_iff)
    then show ?thesis using Some
      by (auto simp: assms row find_append_list find_map_list button_end_def
            button_stop_def button_click_def)
  qed
qed

lemma collect_button_find:
  assumes "size_wh scr = (w, h)"
  shows "collect_button scr r =
       (case List.find (button_stop scr) (List.product [search_area_start_y h..<h] [0..<w]) of
          None \<Rightarrow> ([], Inr False)
        | Some p \<Rightarrow> button_end scr r p)"
  unfolding collect_button_def assms prod.case
  by (rule button_rows_find[OF assms]) simp


lemma left_text_button:
  "collect_button left_text_screen (100, 50, 3, 40) = ([MouseMove 111 85, MouseClick], Inr True)"
  by code_simp

lemma left_text_row:
  "button_row left_text_screen (100, 50, 3, 40) 30 [1] = ([MouseMove 111 85, MouseClick], Inr True)"
  by code_simp

lemma left_text_spec: "\<not> button_trigger_spec left_text_screen 1 30"
  by (simp add: button_trigger_spec_def left_text_screen_def)

lemma white_column_button:
  "collect_button white_column_screen (0, 0, 3, 40) = ([], Inl IndexError)"
  by code_simp


lemma find_Some_mem: "List.find P xs = Some p \<Longrightarrow> p \<in> set xs \<and> P p"
  by (induction xs) (auto split: if_splits)

lemma set_product_region:
  "(p \<in> set (List.product [a..<h] [0..<w])) = (a \<le> fst p \<and> fst p < h \<and> snd p < w)"
  by (cases p) auto

section \<open>When the button detector triggers\<close>

text \<open>
  C5, as amended. At a pixel \<open>(x, y)\<close> of the image the body of the loops clicks
  \<open>rect.origin + (x + 10, y + 5)\<close> and ends the scan with \<open>True\<close> if and only if the pixel
  is pure white, the nine pixels below it, \<open>(x, y + 1)\<close> to \<open>(x, y + 9)\<close>, are inside the
  image and pure white, and a horizontal neighbour is pure black: the right one when
  \<open>x\<close> is not the last column, or the left one when \<open>x\<close> is not the first column. If one
  of the nine pixels below is in the image and not white, the body goes on to the next
  pixel without a detection. The detector returns \<open>True\<close> only by such a click at a
  pixel of the rows \<open>[3 * height div 4, height)\<close>, and never when no pixel of these rows
  satisfies the condition.
\<close>

theorem button_trigger:
  assumes "size_wh scr = (w, h)" "x < w" "y < h"
  shows "(button_row scr r y [x] =
            ([MouseMove (rect0 r + int x + 10) (rect1 r + int y + 5), MouseClick], Inr True))
           = button_hit scr x y
       \<and> (snd (button_row scr r y [x]) = Inr True) = button_hit scr x y
       \<and> button_hit scr x y =
           (pixel scr (x, y) = (255, 255, 255) \<and> y + 9 < h \<and>
            (\<forall>offset \<in> {1..<10}. pixel scr (x, y + offset) = (255, 255, 255)) \<and>
            ((x + 1 < w \<and> pixel scr (x + 1, y) = (0, 0, 0)) \<or>
             (0 < x \<and> pixel scr (x - 1, y) = (0, 0, 0))))
       \<and> ((\<exists>offset \<in> {1..<10}. y + offset < h \<and> pixel scr (x, y + offset) \<noteq> (255, 255, 255))
            \<longrightarrow> button_row scr r y [x] = ([], Inr False))
       \<and> (snd (collect_button scr r) = Inr True \<longrightarrow>
            (\<exists>x' y'. x' < w \<and> 3 * h div 4 \<le> y' \<and> y' < h \<and> button_hit scr x' y' \<and>
               collect_button scr r =
                 ([MouseMove (rect0 r + int x' + 10) (rect1 r + int y' + 5), MouseClick],
                  Inr True)))
       \<and> ((\<forall>x' y'. x' < w \<and> 3 * h div 4 \<le> y' \<and> y' < h \<longrightarrow> \<not> button_hit scr x' y')
            \<longrightarrow> snd (collect_button scr r) \<noteq> Inr True)"
proof -
  have step: "button_row scr r y [x] =
     (if button_hit scr x y then button_click r x y
      else if button_overrun scr x y then ([], Inl IndexError)
      else ([], Inr False))"
    using button_row_step[OF assms, of r "[]"] by simp
  have c1: "(button_row scr r y [x] =
            ([MouseMove (rect0 r + int x + 10) (rect1 r + int y + 5), MouseClick], Inr True))
           = button_hit scr x y"
    unfolding step by (simp add: button_click_def)
  have c2: "(snd (button_row scr r y [x]) = Inr True) = button_hit scr x y"
    unfolding step by (simp add: button_click_def)
  have c3: "button_hit scr x y =
           (pixel scr (x, y) = (255, 255, 255) \<and> y + 9 < h \<and>
            (\<forall>offset \<in> {1..<10}. pixel scr (x, y + offset) = (255, 255, 255)) \<and>
            ((x + 1 < w \<and> pixel scr (x + 1, y) = (0, 0, 0)) \<or>
             (0 < x \<and> pixel scr (x - 1, y) = (0, 0, 0))))"
    unfolding button_hit_def assms(1) prod.case button_color_def text_color_def by (rule refl)
  have c4: "(\<exists>offset \<in> {1..<10}. y + offset < h \<and> pixel scr (x, y + offset) \<noteq> (255, 255, 255))
            \<longrightarrow> button_row scr r y [x] = ([], Inr False)"
  proof
    assume "\<exists>offset \<in> {1..<10}. y + offset < h \<and> pixel scr (x, y + offset) \<noteq> (255, 255, 255)"
    then obtain offset where o: "offset \<in> {1..<10}" "y + offset < h"
        "pixel scr (x, y + offset) \<noteq> button_color"
      by (auto simp: button_color_def)
    then have "\<not> button_hit scr x y" "\<not> button_overrun scr x y"
      unfolding button_hit_def button_overrun_def assms(1) prod.case by blast+
    then show "button_row scr r y [x] = ([], Inr False)" unfolding step by simp
  qed
  let ?region = "List.product [search_area_start_y h..<h] [0..<w]"
  have c5: "snd (collect_button scr r) = Inr True \<longrightarrow>
            (\<exists>x' y'. x' < w \<and> 3 * h div 4 \<le> y' \<and> y' < h \<and> button_hit scr x' y' \<and>
               collect_button scr r =
                 ([MouseMove (rect0 r + int x' + 10) (rect1 r + int y' + 5), MouseClick],
                  Inr True))"
  proof
    assume t: "snd (collect_button scr r) = Inr True"
    show "\<exists>x' y'. x' < w \<and> 3 * h div 4 \<le> y' \<and> y' < h \<and> button_hit scr x' y' \<and>
               collect_button scr r =
                 ([MouseMove (rect0 r + int x' + 10) (rect1 r + int y' + 5), MouseClick],
                  Inr True)"
    proof (cases "List.find (button_stop scr) ?region")
      case None
      with t show ?thesis by (simp add: collect_button_find[OF assms(1)])
    next
      case (Some p)
      then have res: "collect_button scr r = button_end scr r p"
        by (simp add: collect_button_find[OF assms(1)])
      from Some have "p \<in> set ?region" by (rule find_Some_mem[THEN conjunct1])
      then have reg: "snd p < w \<and> 3 * h div 4 \<le> fst p \<and> fst p < h"
        by (simp only: set_product_region search_area_start_y_def)
      from t res have hit: "button_hit scr (snd p) (fst p)"
        by (auto simp: button_end_def split: if_splits)
      with res have "collect_button scr r =
          ([MouseMove (rect0 r + int (snd p) + 10) (rect1 r + int (fst p) + 5), MouseClick],
           Inr True)"
        by (simp add: button_end_def button_click_def)
      with reg hit show ?thesis by blast
    qed
  qed
  have c6: "(\<forall>x' y'. x' < w \<and> 3 * h div 4 \<le> y' \<and> y' < h \<longrightarrow> \<not> button_hit scr x' y')
            \<longrightarrow> snd (collect_button scr r) \<noteq> Inr True"
    using c5 by blast
  from c1 c2 c3 c4 c5 c6 show ?thesis by (intro conjI)
qed


theorem button_trigger_witness:
  "size_wh nine_run_screen = (3, 40) \<and> (1::nat) < 3 \<and> (30::nat) < 40 \<and>
   pixel nine_run_screen (1, 30) = (255, 255, 255) \<and>
   pixel nine_run_screen (2, 30) = (0, 0, 0) \<and>
   pixel nine_run_screen (1, 38) = (255, 255, 255) \<and>
   pixel nine_run_screen (1, 39) \<noteq> (255, 255, 255) \<and>
   button_row nine_run_screen (0, 0, 3, 40) 30 [1] = ([], Inr False)"
proof -
  have h: "size_wh nine_run_screen = (3, 40)" "(1::nat) < 3" "(30::nat) < 40"
    by (simp_all add: nine_run_screen_def)
  have px: "pixel nine_run_screen (1, 30) = (255, 255, 255)"
    "pixel nine_run_screen (2, 30) = (0, 0, 0)"
    "pixel nine_run_screen (1, 38) = (255, 255, 255)"
    "pixel nine_run_screen (1, 39) \<noteq> (255, 255, 255)"
    by (simp_all add: nine_run_screen_def)
  have "(9::nat) \<in> {1..<10} \<and> (30::nat) + 9 < 40 \<and>
      pixel nine_run_screen (1, 30 + 9) \<noteq> (255, 255, 255)"
    using px(4) by simp
  then have ex: "\<exists>offset \<in> {1..<10}. (30::nat) + offset < 40 \<and>
      pixel nine_run_screen (1, 30 + offset) \<noteq> (255, 255, 255)"
    by blast
  note t = button_trigger[OF h, of "(0, 0, 3, 40)"]
  from t ex have row: "button_row nine_run_screen (0, 0, 3, 40) 30 [1] = ([], Inr False)"
    by blast
  from h px row show ?thesis by (intro conjI)
qed

text \<open>
  C5 as stated fails in the choice of the neighbour: at \<open>(1, 30)\<close> of a three-column
  screenshot the right neighbour exists and is not black, the left neighbour is black,
  and the detector triggers there.
\<close>

theorem button_left_neighbour_counterexample:
  "\<not> button_trigger_spec left_text_screen 1 30 \<and>
   button_row left_text_screen (100, 50, 3, 40) 30 [1] =
     ([MouseMove 111 85, MouseClick], Inr True) \<and>
   collect_button left_text_screen (100, 50, 3, 40) =
     ([MouseMove 111 85, MouseClick], Inr True)"
  using left_text_spec left_text_row left_text_button by blast

section \<open>Reads below the image\<close>

text \<open>
  C10. The button detector can read outside the image. At a pixel \<open>(x, y)\<close> of the image
  in one of the last nine rows that is white and has only white pixels below it down
  to the last row, the check of the pixels below reads \<open>(x, height)\<close>, which raises
  \<open>IndexError\<close>, and the body of the loops ends with that exception. If the pixel lies
  in the searched rows and no pixel of these rows is a detection, the detector itself
  ends with \<open>IndexError\<close>; a grey 3 by 40 screenshot with a white column in the rows
  30 to 39 is such an input.
\<close>

theorem button_reads_below_image:
  assumes "size_wh scr = (w, h)" "x < w" "y < h" "h \<le> y + 9"
    and "pixel scr (x, y) = (255, 255, 255)"
    and "\<forall>y'. y < y' \<and> y' < h \<longrightarrow> pixel scr (x, y') = (255, 255, 255)"
  shows "getpixel scr (x, h) = Inl IndexError
       \<and> all_below scr x y [1..<10] = Inl IndexError
       \<and> button_row scr r y [x] = ([], Inl IndexError)
       \<and> ((\<forall>x' y'. x' < w \<and> 3 * h div 4 \<le> y' \<and> y' < h \<longrightarrow> \<not> button_hit scr x' y') \<and>
           3 * h div 4 \<le> y \<longrightarrow> collect_button scr r = ([], Inl IndexError))
       \<and> collect_button white_column_screen (0, 0, 3, 40) = ([], Inl IndexError)"
proof -
  have white: "\<forall>off \<in> {1..<10}. y + off < h \<longrightarrow> pixel scr (x, y + off) = button_color"
    using assms(6) by (simp add: button_color_def)
  have c1: "getpixel scr (x, h) = Inl IndexError"
    by (simp add: getpixel_def assms(1))
  have c2: "all_below scr x y [1..<10] = Inl IndexError"
    using white assms(4) by (simp only: all_below_range[OF assms(1,2)]) simp
  have over: "button_overrun scr x y"
    unfolding button_overrun_def assms(1) prod.case using white assms(4,5)
    by (simp add: button_color_def)
  have nohit: "\<not> button_hit scr x y"
    unfolding button_hit_def assms(1) prod.case using assms(4) by simp
  have c3: "button_row scr r y [x] = ([], Inl IndexError)"
    using button_row_step[OF assms(1,2,3), of r "[]"] over nohit by simp
  let ?region = "List.product [search_area_start_y h..<h] [0..<w]"
  have c4: "(\<forall>x' y'. x' < w \<and> 3 * h div 4 \<le> y' \<and> y' < h \<longrightarrow> \<not> button_hit scr x' y') \<and>
           3 * h div 4 \<le> y \<longrightarrow> collect_button scr r = ([], Inl IndexError)"
  proof
    assume a: "(\<forall>x' y'. x' < w \<and> 3 * h div 4 \<le> y' \<and> y' < h \<longrightarrow> \<not> button_hit scr x' y') \<and>
           3 * h div 4 \<le> y"
    have "(y, x) \<in> set ?region"
      using a assms(2,3) by (simp add: search_area_start_y_def)
    moreover have "button_stop scr (y, x)" using over by (simp add: button_stop_def)
    ultimately have "List.find (button_stop scr) ?region \<noteq> None"
      by (auto simp: find_None_iff)
    then obtain p where p: "List.find (button_stop scr) ?region = Some p" by blast
    then have "p \<in> set ?region" by (rule find_Some_mem[THEN conjunct1])
    then have "snd p < w \<and> 3 * h div 4 \<le> fst p \<and> fst p < h"
      by (simp only: set_product_region search_area_start_y_def)
    with a have "\<not> button_hit scr (snd p) (fst p)" by blast
    with p show "collect_button scr r = ([], Inl IndexError)"
      by (simp add: collect_button_find[OF assms(1)] button_end_def)
  qed
  from c1 c2 c3 c4 white_column_button show ?thesis by (intro conjI)
qed

theorem button_reads_below_image_witness:
  "size_wh white_column_screen = (3, 40) \<and> (1::nat) < 3 \<and> (31::nat) < 40 \<and> (40::nat) \<le> 31 + 9 \<and>
   pixel white_column_screen (1, 31) = (255, 255, 255) \<and>
   pixel white_column_screen (1, 32) = (255, 255, 255) \<and>
   pixel white_column_screen (1, 39) = (255, 255, 255) \<and>
   getpixel white_column_screen (1, 40) = Inl IndexError \<and>
   button_row white_column_screen (0, 0, 3, 40) 31 [1] = ([], Inl IndexError) \<and>
   collect_button white_column_screen (0, 0, 3, 40) = ([], Inl IndexError)"
proof -
  have h: "size_wh white_column_screen = (3, 40)" "(1::nat) < 3" "(31::nat) < 40"
      "(40::nat) \<le> 31 + 9"
      "pixel white_column_screen (1, 31) = (255, 255, 255)"
      "\<forall>y'. 31 < y' \<and> y' < 40 \<longrightarrow> pixel white_column_screen (1, y') = (255, 255, 255)"
    by (simp_all add: white_column_screen_def)
  have nohit: "\<forall>x' y'. x' < 3 \<and> 3 * 40 div 4 \<le> y' \<and> y' < 40 \<longrightarrow>
      \<not> button_hit white_column_screen x' y'"
    by (simp add: button_hit_def white_column_screen_def text_color_def button_color_def)
  note t = button_reads_below_image[OF h, of "(0, 0, 3, 40)"]
  from t have a: "getpixel white_column_screen (1, 40) = Inl IndexError"
    and b: "button_row white_column_screen (0, 0, 3, 40) 31 [1] = ([], Inl IndexError)"
    by blast+
  from t nohit have c: "collect_button white_column_screen (0, 0, 3, 40) = ([], Inl IndexError)"
    by simp
  have px: "pixel white_column_screen (1, 32) = (255, 255, 255)"
    "pixel white_column_screen (1, 39) = (255, 255, 255)"
    by (simp_all add: white_column_screen_def)
  from h(1-5) px a b c show ?thesis by (intro conjI)
qed

section \<open>Where the detectors click\<close>

lemma find_unique:
  assumes "p \<in> set xs" "P p" "\<forall>q \<in> set xs. P q \<longrightarrow> q = p"
  shows "List.find P xs = Some p"
proof (cases "List.find P xs")
  case None
  with assms(1,2) show ?thesis by (simp add: find_None_iff)
next
  case (Some q)
  then have "q \<in> set xs \<and> P q" by (rule find_Some_mem)
  with assms(3) have "q = p" by blast
  with Some show ?thesis by simp
qed

lemma example_green:
  "collect_green example_screen (100, 50, 400, 300) = ([MouseMove 120 90, MouseClick], Inr True)"
proof -
  have sz: "size_wh example_screen = (400, 300)" by (simp add: example_screen_def)
  have hit: "\<And>q. green_hit (pixel example_screen q) = (q = (20, 40))"
    by (simp add: example_screen_def green_hit_def greenish_range_def avoid_color_def)
  have mem: "(20, 40) \<in> set (grid example_screen)"
    by (simp add: set_grid[OF sz])
  have "List.find (\<lambda>p. green_hit (pixel example_screen p)) (grid example_screen) = Some (20, 40)"
    by (rule find_unique[OF mem]) (simp_all add: hit)
  then show ?thesis by (simp add: collect_green_find rect0_def rect1_def)
qed

lemma example_freeze:
  "collect_freeze example_freeze_screen (100, 50, 400, 300) = ([MouseMove 120 90, MouseClick], Inr True)"
proof -
  have sz: "size_wh example_freeze_screen = (400, 300)" by (simp add: example_freeze_screen_def)
  have hit: "\<And>q. blueish_range (pixel example_freeze_screen q) = (q = (20, 40))"
    by (simp add: example_freeze_screen_def blueish_range_def)
  have mem: "(20, 40) \<in> set (grid example_freeze_screen)"
    by (simp add: set_grid[OF sz])
  have "List.find (\<lambda>p. blueish_range (pixel example_freeze_screen p)) (grid example_freeze_screen) = Some (20, 40)"
    by (rule find_unique[OF mem]) (simp_all add: hit)
  then show ?thesis by (simp add: collect_freeze_find rect0_def rect1_def)
qed

lemma grid_bounds:
  "size_wh scr = (w, h) \<Longrightarrow> p \<in> set (grid scr) \<Longrightarrow> fst p < w \<and> snd p < h"
  by (cases p) (simp add: set_grid)

lemma green_click_place:
  assumes "size_wh scr = (w, h)" "MouseMove ax ay \<in> set (fst (collect_green scr r))"
  shows "\<exists>x y. x < w \<and> y < h \<and> 20 dvd x \<and> 20 dvd y \<and> green_hit (pixel scr (x, y)) \<and>
           ax = rect0 r + int x \<and> ay = rect1 r + int y"
proof (cases "List.find (\<lambda>p. green_hit (pixel scr p)) (grid scr)")
  case None
  with assms(2) show ?thesis by (simp add: collect_green_find)
next
  case (Some p)
  then have m: "p \<in> set (grid scr) \<and> green_hit (pixel scr p)" by (rule find_Some_mem)
  obtain x y where p: "p = (x, y)" by (cases p)
  from m have b: "x < w \<and> 20 dvd x \<and> y < h \<and> 20 dvd y" by (simp add: p set_grid[OF assms(1)])
  from Some assms(2) have "ax = rect0 r + int x \<and> ay = rect1 r + int y"
    by (simp add: collect_green_find p)
  with m b show ?thesis unfolding p by blast
qed

lemma freeze_click_place:
  assumes "size_wh scr = (w, h)" "MouseMove ax ay \<in> set (fst (collect_freeze scr r))"
  shows "\<exists>x y. x < w \<and> y < h \<and> 20 dvd x \<and> 20 dvd y \<and> blueish_range (pixel scr (x, y)) \<and>
           ax = rect0 r + int x \<and> ay = rect1 r + int y"
proof (cases "List.find (\<lambda>p. blueish_range (pixel scr p)) (grid scr)")
  case None
  with assms(2) show ?thesis by (simp add: collect_freeze_find)
next
  case (Some p)
  then have m: "p \<in> set (grid scr) \<and> blueish_range (pixel scr p)" by (rule find_Some_mem)
  obtain x y where p: "p = (x, y)" by (cases p)
  from m have b: "x < w \<and> 20 dvd x \<and> y < h \<and> 20 dvd y" by (simp add: p set_grid[OF assms(1)])
  from Some assms(2) have "ax = rect0 r + int x \<and> ay = rect1 r + int y"
    by (simp add: collect_freeze_find p)
  with m b show ?thesis unfolding p by blast
qed

lemma inside_image_iff:
  "size_wh scr = (w, h) \<Longrightarrow>
   inside_image scr r (MouseMove ax ay) =
     (rect0 r \<le> ax \<and> ax < rect0 r + int w \<and> rect1 r \<le> ay \<and> ay < rect1 r + int h)"
  by (simp add: inside_image_def)

lemma clicks_inside:
  assumes "size_wh scr = (w, h)"
    and "evs = [] \<or> (\<exists>a b. evs = [MouseMove a b, MouseClick])"
    and "\<And>ax ay. MouseMove ax ay \<in> set evs \<Longrightarrow>
           \<exists>x y. x < w \<and> y < h \<and> ax = rect0 r + int x \<and> ay = rect1 r + int y"
  shows "list_all (inside_image scr r) evs"
proof -
  from assms(2) show ?thesis
  proof
    assume "evs = []"
    then show ?thesis by simp
  next
    assume "\<exists>a b. evs = [MouseMove a b, MouseClick]"
    then obtain a b where e: "evs = [MouseMove a b, MouseClick]" by blast
    then have "MouseMove a b \<in> set evs" by simp
    from assms(3)[OF this] obtain x y where
      "x < w \<and> y < h \<and> a = rect0 r + int x \<and> b = rect1 r + int y" by blast
    then have "inside_image scr r (MouseMove a b)"
      by (simp add: inside_image_iff[OF assms(1)])
    then show ?thesis by (simp add: e inside_image_def)
  qed
qed

lemma green_inside:
  assumes "size_wh scr = (w, h)"
  shows "list_all (inside_image scr r) (fst (collect_green scr r))"
proof (rule clicks_inside[OF assms])
  show "fst (collect_green scr r) = [] \<or>
      (\<exists>a b. fst (collect_green scr r) = [MouseMove a b, MouseClick])"
    using collect_green_shape[of scr r] by auto
next
  fix ax ay
  assume "MouseMove ax ay \<in> set (fst (collect_green scr r))"
  from green_click_place[OF assms this]
  show "\<exists>x y. x < w \<and> y < h \<and> ax = rect0 r + int x \<and> ay = rect1 r + int y" by blast
qed

lemma freeze_inside:
  assumes "size_wh scr = (w, h)"
  shows "list_all (inside_image scr r) (fst (collect_freeze scr r))"
proof (rule clicks_inside[OF assms])
  show "fst (collect_freeze scr r) = [] \<or>
      (\<exists>a b. fst (collect_freeze scr r) = [MouseMove a b, MouseClick])"
    using collect_freeze_shape[of scr r] by auto
next
  fix ax ay
  assume "MouseMove ax ay \<in> set (fst (collect_freeze scr r))"
  from freeze_click_place[OF assms this]
  show "\<exists>x y. x < w \<and> y < h \<and> ax = rect0 r + int x \<and> ay = rect1 r + int y" by blast
qed

lemma foldr_min_le: "x \<in> set xs \<Longrightarrow> foldr min xs a \<le> (x::int)"
  by (induction xs) auto

lemma foldr_min_ge: "\<forall>x \<in> set xs. l \<le> x \<Longrightarrow> l \<le> a \<Longrightarrow> l \<le> foldr min xs (a::int)"
  by (induction xs) auto

lemma foldr_max_ge: "x \<in> set xs \<Longrightarrow> (x::int) \<le> foldr max xs a"
  by (induction xs) auto

lemma foldr_max_less: "\<forall>x \<in> set xs. x < u \<Longrightarrow> a < u \<Longrightarrow> foldr max xs (a::int) < u"
  by (induction xs) auto

lemma least_greatest_bounds:
  assumes "xs \<noteq> []" "\<forall>x \<in> set xs. 0 \<le> x \<and> x < u"
  shows "0 \<le> least xs \<and> least xs \<le> greatest xs \<and> greatest xs < u"
proof -
  have hd: "hd xs \<in> set xs" using assms(1) by simp
  have "0 \<le> least xs"
    unfolding least_def using assms(2) hd by (intro foldr_min_ge) auto
  moreover have "least xs \<le> hd xs" unfolding least_def by (rule foldr_min_le[OF hd])
  moreover have "hd xs \<le> greatest xs" unfolding greatest_def by (rule foldr_max_ge[OF hd])
  moreover have "greatest xs < u"
    unfolding greatest_def using assms(2) hd by (intro foldr_max_less) auto
  ultimately show ?thesis by simp
qed

lemma box_centre_inside:
  assumes "size_wh scr = (w, h)" "contour_inside scr c" "boundingRect c = (x, y, bw, bh)"
  shows "0 \<le> x + bw div 2 \<and> x + bw div 2 < int w \<and> 0 \<le> y + bh div 2 \<and> y + bh div 2 < int h"
proof -
  from assms(1,2) have ne: "c \<noteq> []"
    and inx: "\<forall>v \<in> set (map fst c). 0 \<le> v \<and> v < int w"
    and iny: "\<forall>v \<in> set (map snd c). 0 \<le> v \<and> v < int h"
    by (auto simp: contour_inside_def list_all_iff)
  from ne have nex: "map fst c \<noteq> []" and ney: "map snd c \<noteq> []" by simp_all
  note bx = least_greatest_bounds[OF nex inx]
  note by' = least_greatest_bounds[OF ney iny]
  from assms(3) ne have "x = least (map fst c)" "bw = greatest (map fst c) - x + 1"
    "y = least (map snd c)" "bh = greatest (map snd c) - y + 1"
    by (simp_all add: boundingRect_def Let_def)
  with bx by' show ?thesis by simp linarith
qed

lemma dog_click_place:
  assumes "size_wh scr = (w, h)" "MouseMove ax ay \<in> set (fst (collect_dog fc scr r))"
  shows "\<exists>c x y bw bh. c \<in> set (fc scr) \<and> 500 < contourArea c \<and> contourArea c < 3000 \<and>
           boundingRect c = (x, y, bw, bh) \<and>
           ax = rect0 r + (x + bw div 2) \<and> ay = rect1 r + (y + bh div 2) \<and>
           (contour_inside scr c \<longrightarrow>
              0 \<le> x + bw div 2 \<and> x + bw div 2 < int w \<and>
              0 \<le> y + bh div 2 \<and> y + bh div 2 < int h)"
proof (cases "fst (size_wh scr) = 0 \<or> snd (size_wh scr) = 0")
  case True
  with assms(2) show ?thesis by (simp add: collect_dog_find)
next
  case pixels: False
  show ?thesis
  proof (cases "List.find (\<lambda>c. 500 < contourArea c \<and> contourArea c < 3000) (fc scr)")
    case None
    with assms(2) pixels show ?thesis by (simp add: collect_dog_find)
  next
    case (Some c)
    then have m: "c \<in> set (fc scr) \<and> (500 < contourArea c \<and> contourArea c < 3000)"
      by (rule find_Some_mem)
    obtain x y bw bh where box: "boundingRect c = (x, y, bw, bh)"
      by (cases "boundingRect c") auto
    from Some assms(2) pixels have at:
      "ax = rect0 r + (x + bw div 2) \<and> ay = rect1 r + (y + bh div 2)"
      by (simp add: collect_dog_find box)
    have "contour_inside scr c \<longrightarrow>
        0 \<le> x + bw div 2 \<and> x + bw div 2 < int w \<and> 0 \<le> y + bh div 2 \<and> y + bh div 2 < int h"
      using box_centre_inside[OF assms(1) _ box] by blast
    with m box at show ?thesis by blast
  qed
qed

lemma dog_inside:
  assumes "size_wh scr = (w, h)" "\<forall>c \<in> set (fc scr). contour_inside scr c"
  shows "list_all (inside_image scr r) (fst (collect_dog fc scr r))"
proof -
  from collect_dog_shape[of fc scr r]
  consider "fst (collect_dog fc scr r) = []"
    | a b where "fst (collect_dog fc scr r) = [MouseMove a b, MouseClick]"
    by auto
  then show ?thesis
  proof cases
    case 1
    then show ?thesis by simp
  next
    case 2
    then have "MouseMove a b \<in> set (fst (collect_dog fc scr r))" by simp
    from dog_click_place[OF assms(1) this] assms(2)
    have "inside_image scr r (MouseMove a b)"
      by (auto simp: inside_image_iff[OF assms(1)])
    then show ?thesis by (simp add: 2 inside_image_def)
  qed
qed

lemma button_click_place:
  assumes "size_wh scr = (w, h)" "MouseMove ax ay \<in> set (fst (collect_button scr r))"
  shows "\<exists>x y. x < w \<and> 3 * h div 4 \<le> y \<and> y + 9 < h \<and> button_hit scr x y \<and>
           ax = rect0 r + int x + 10 \<and> ay = rect1 r + int y + 5"
proof (cases "List.find (button_stop scr) (List.product [search_area_start_y h..<h] [0..<w])")
  case None
  with assms(2) show ?thesis by (simp add: collect_button_find[OF assms(1)])
next
  case (Some p)
  then have "p \<in> set (List.product [search_area_start_y h..<h] [0..<w])"
    by (rule find_Some_mem[THEN conjunct1])
  then have reg: "snd p < w \<and> 3 * h div 4 \<le> fst p \<and> fst p < h"
    by (simp only: set_product_region search_area_start_y_def)
  have res: "collect_button scr r = button_end scr r p"
    using Some by (simp add: collect_button_find[OF assms(1)])
  have hit: "button_hit scr (snd p) (fst p)"
  proof (rule ccontr)
    assume "\<not> button_hit scr (snd p) (fst p)"
    then have "fst (collect_button scr r) = []" by (simp add: res button_end_def)
    with assms(2) show False by simp
  qed
  then have "fst (collect_button scr r) =
      [MouseMove (rect0 r + int (snd p) + 10) (rect1 r + int (fst p) + 5), MouseClick]"
    by (simp add: res button_end_def button_click_def)
  with assms(2) have at: "ax = rect0 r + int (snd p) + 10 \<and> ay = rect1 r + int (fst p) + 5"
    by simp
  from hit have "fst p + 9 < h" by (simp add: button_hit_def assms(1))
  with reg hit at show ?thesis by blast
qed


text \<open>
  C2, as amended. Every absolute coordinate a detector passes to the pointer is the
  window origin plus a window-relative point. For the green-marker and the
  freeze-marker detector that point is a sampled grid pixel that matches, inside
  \<open>[0, width) \<times> [0, height)\<close>. For the face detector it is the centre
  \<open>(x + w // 2, y + h // 2)\<close> of the bounding box of an accepted contour, inside the
  image whenever the vertices of the contour are pixels of the image. For the button
  detector it is \<open>(x + 10, y + 5)\<close> for a triggering pixel \<open>(x, y)\<close> of the image with
  \<open>y + 9 < height\<close>: its row is inside the image, its column lies in
  \<open>[10, width + 10)\<close> and can be outside.
\<close>

theorem pointer_coordinates:
  assumes "size_wh scr = (w, h)"
  shows "(\<forall>ax ay. MouseMove ax ay \<in> set (fst (collect_green scr r)) \<longrightarrow>
            (\<exists>x y. x < w \<and> y < h \<and> 20 dvd x \<and> 20 dvd y \<and> green_hit (pixel scr (x, y)) \<and>
               ax = rect0 r + int x \<and> ay = rect1 r + int y))
       \<and> (\<forall>ax ay. MouseMove ax ay \<in> set (fst (collect_freeze scr r)) \<longrightarrow>
            (\<exists>x y. x < w \<and> y < h \<and> 20 dvd x \<and> 20 dvd y \<and> blueish_range (pixel scr (x, y)) \<and>
               ax = rect0 r + int x \<and> ay = rect1 r + int y))
       \<and> (\<forall>ax ay. MouseMove ax ay \<in> set (fst (collect_dog fc scr r)) \<longrightarrow>
            (\<exists>c x y bw bh. c \<in> set (fc scr) \<and> 500 < contourArea c \<and> contourArea c < 3000 \<and>
               boundingRect c = (x, y, bw, bh) \<and>
               ax = rect0 r + (x + bw div 2) \<and> ay = rect1 r + (y + bh div 2) \<and>
               (contour_inside scr c \<longrightarrow>
                  0 \<le> x + bw div 2 \<and> x + bw div 2 < int w \<and>
                  0 \<le> y + bh div 2 \<and> y + bh div 2 < int h)))
       \<and> (\<forall>ax ay. MouseMove ax ay \<in> set (fst (collect_button scr r)) \<longrightarrow>
            (\<exists>x y. x < w \<and> 3 * h div 4 \<le> y \<and> y + 9 < h \<and> button_hit scr x y \<and>
               ax = rect0 r + int x + 10 \<and> ay = rect1 r + int y + 5))
       \<and> list_all (inside_image scr r) (fst (collect_green scr r))
       \<and> list_all (inside_image scr r) (fst (collect_freeze scr r))
       \<and> ((\<forall>c \<in> set (fc scr). contour_inside scr c) \<longrightarrow>
            list_all (inside_image scr r) (fst (collect_dog fc scr r)))"
proof -
  have g: "\<forall>ax ay. MouseMove ax ay \<in> set (fst (collect_green scr r)) \<longrightarrow>
            (\<exists>x y. x < w \<and> y < h \<and> 20 dvd x \<and> 20 dvd y \<and> green_hit (pixel scr (x, y)) \<and>
               ax = rect0 r + int x \<and> ay = rect1 r + int y)"
    using green_click_place[OF assms] by blast
  have f: "\<forall>ax ay. MouseMove ax ay \<in> set (fst (collect_freeze scr r)) \<longrightarrow>
            (\<exists>x y. x < w \<and> y < h \<and> 20 dvd x \<and> 20 dvd y \<and> blueish_range (pixel scr (x, y)) \<and>
               ax = rect0 r + int x \<and> ay = rect1 r + int y)"
    using freeze_click_place[OF assms] by blast
  have d: "\<forall>ax ay. MouseMove ax ay \<in> set (fst (collect_dog fc scr r)) \<longrightarrow>
            (\<exists>c x y bw bh. c \<in> set (fc scr) \<and> 500 < contourArea c \<and> contourArea c < 3000 \<and>
               boundingRect c = (x, y, bw, bh) \<and>
               ax = rect0 r + (x + bw div 2) \<and> ay = rect1 r + (y + bh div 2) \<and>
               (contour_inside scr c \<longrightarrow>
                  0 \<le> x + bw div 2 \<and> x + bw div 2 < int w \<and>
                  0 \<le> y + bh div 2 \<and> y + bh div 2 < int h))"
    using dog_click_place[OF assms] by blast
  have b: "\<forall>ax ay. MouseMove ax ay \<in> set (fst (collect_button scr r)) \<longrightarrow>
            (\<exists>x y. x < w \<and> 3 * h div 4 \<le> y \<and> y + 9 < h \<and> button_hit scr x y \<and>
               ax = rect0 r + int x + 10 \<and> ay = rect1 r + int y + 5)"
    using button_click_place[OF assms] by blast
  have di: "(\<forall>c \<in> set (fc scr). contour_inside scr c) \<longrightarrow>
            list_all (inside_image scr r) (fst (collect_dog fc scr r))"
    using dog_inside[OF assms] by blast
  from g f d b green_inside[OF assms] freeze_inside[OF assms] di show ?thesis by (intro conjI)
qed

theorem pointer_coordinates_witness:
  "size_wh example_screen = (400, 300) \<and>
   list_all (contour_inside example_screen) (one_face example_screen) \<and>
   collect_green example_screen (100, 50, 400, 300) = ([MouseMove 120 90, MouseClick], Inr True) \<and>
   collect_freeze example_freeze_screen (100, 50, 400, 300) =
     ([MouseMove 120 90, MouseClick], Inr True) \<and>
   boundingRect [(0, 20), (0, 60), (40, 60), (40, 20)] = (0, 20, 41, 41) \<and>
   collect_dog one_face example_screen (100, 50, 400, 300) =
     ([MouseMove 120 90, MouseClick], Inr True) \<and>
   inside_image example_screen (100, 50, 400, 300) (MouseMove 120 90)"
proof -
  have sz: "size_wh example_screen = (400, 300)" by (simp add: example_screen_def)
  have inside: "\<forall>c \<in> set (one_face example_screen). contour_inside example_screen c"
    by (simp add: one_face_def contour_inside_def example_screen_def)
  have inside': "list_all (contour_inside example_screen) (one_face example_screen)"
    by (simp add: one_face_def contour_inside_def example_screen_def)
  have area: "contourArea [(0, 20), (0, 60), (40, 60), (40, 20)] = 1600"
    using contourArea_rectangle[of 0 20 40 40] by simp
  have box: "boundingRect [(0, 20), (0, 60), (40, 60), (40, 20)] = (0, 20, 41, 41)"
    using boundingRect_rectangle[of 40 40 0 20] by simp
  have dog: "collect_dog one_face example_screen (100, 50, 400, 300) =
     ([MouseMove 120 90, MouseClick], Inr True)"
    by (simp add: collect_dog_find one_face_def example_screen_def area box rect0_def rect1_def)
  note t = pointer_coordinates[OF sz, of "(100, 50, 400, 300)" one_face]
  from t inside have "list_all (inside_image example_screen (100, 50, 400, 300))
      (fst (collect_dog one_face example_screen (100, 50, 400, 300)))"
    by blast
  then have d: "inside_image example_screen (100, 50, 400, 300) (MouseMove 120 90)"
    by (simp add: dog)
  from sz inside' example_green example_freeze box dog d show ?thesis by (intro conjI)
qed

text \<open>
  C2 as stated fails for the button detector: in a 3 by 40 screenshot it clicks the
  window-relative point \<open>(11, 35)\<close>, eight columns to the right of the image.
\<close>

theorem button_click_outside_counterexample:
  "size_wh left_text_screen = (3, 40) \<and>
   collect_button left_text_screen (100, 50, 3, 40) = ([MouseMove 111 85, MouseClick], Inr True) \<and>
   \<not> inside_image left_text_screen (100, 50, 3, 40) (MouseMove 111 85) \<and>
   \<not> list_all (inside_image left_text_screen (100, 50, 3, 40))
         (fst (collect_button left_text_screen (100, 50, 3, 40)))"
proof -
  have sz: "size_wh left_text_screen = (3, 40)" by (simp add: left_text_screen_def)
  have out: "\<not> inside_image left_text_screen (100, 50, 3, 40) (MouseMove 111 85)"
    by (simp add: inside_image_def sz rect0_def rect1_def)
  then have "\<not> list_all (inside_image left_text_screen (100, 50, 3, 40))
         (fst (collect_button left_text_screen (100, 50, 3, 40)))"
    by (simp add: left_text_button)
  with sz out left_text_button show ?thesis by (intro conjI)
qed

section \<open>The debounce of the pause switch\<close>
















end
